theory Spec2Isabelle
  imports Complex_Main "HOL-Library.Word" "HOL-Library.Multiset" "HOL-Library.Monad_Syntax"
begin

unbundle bit_operations_syntax

section \<open>The molecules example of meshutils: the embedding\<close>

text \<open>
  A shallow embedding of \<^verbatim>\<open>examples/molecules/main.cpp\<close>: the parallel executor
  \<^verbatim>\<open>par_for\<close>, the chain selector, the grid extents, the two scalar fields, the band
  query, the vertex colour and the naming of the output file.

  Conventions of the embedding.
  \<^item> A C string is the list of its bytes before the terminating NUL; reading the terminator
    is the case where the list has no further element.
  \<^item> \<^verbatim>\<open>char\<close> is a signed 8-bit integer (the convention of the x86 compilers the example
    is built with), modelled as \<^typ>\<open>8 word\<close> with signed comparison.
  \<^item> \<^verbatim>\<open>int\<close> has 32 bits. Its values are integers of \<^typ>\<open>int\<close> between \<open>-2\<^sup>3\<^sup>1\<close> and
    \<open>2\<^sup>3\<^sup>1 - 1\<close>; an addition or product that leaves this range is undefined, and the
    increment of the atomic counter wraps around.
  \<^item> A \<^verbatim>\<open>float\<close> is a real number that single precision represents. Where the result of
    the example is an integer, in the grid extents, every operation is rounded to the
    nearest float, ties to even, and a result beyond the largest float is undefined. The
    values of the two fields and of the colour are computed over the reals, without
    rounding, from the float constants of the source.
  \<^item> Undefined behaviour of the C++ program (reading an empty vector, an index outside a
    vector, running an iterator past its end, signed overflow, a float that does not fit
    the \<^verbatim>\<open>int\<close> it is converted to) is an explicit result: \<open>None\<close> inside a computation,
    \<open>Undefined_behaviour\<close> as its outcome, kept apart from an error the program reports.
\<close>

datatype failure = Usage | Undefined_behaviour | Diverges | Length_error

subsection \<open>Machine numbers\<close>

text \<open>
  The arithmetic of \<^verbatim>\<open>int\<close>: a sum or product outside the range of the type is undefined
  behaviour. \<^verbatim>\<open>idx++\<close> on a \<^verbatim>\<open>std::atomic<int>\<close> is the exception, it wraps.
\<close>

definition in_int :: "int \<Rightarrow> bool" where
  "in_int i = (- (2 ^ 31) \<le> i \<and> i < 2 ^ 31)"

definition int_add :: "int \<Rightarrow> int \<Rightarrow> int option" where
  "int_add a b = (if in_int (a + b) then Some (a + b) else None)"

definition int_mul :: "int \<Rightarrow> int \<Rightarrow> int option" where
  "int_mul a b = (if in_int (a * b) then Some (a * b) else None)"

definition wrap_int :: "int \<Rightarrow> int" where
  "wrap_int i = (i + 2 ^ 31) mod 2 ^ 32 - 2 ^ 31"

text \<open>
  Single precision. The floats are zero and the numbers \<open>\<plusminus> m * 2\<^sup>e\<close> with \<open>m < 2\<^sup>2\<^sup>4\<close> and
  \<open>-149 \<le> e \<le> 104\<close>. \<open>ulp a\<close> is the distance between neighbouring floats around \<open>a\<close>: the
  loop doubles it from \<open>2\<^sup>-\<^sup>1\<^sup>4\<^sup>9\<close>, the spacing of the subnormal numbers, until \<open>a\<close> lies below
  \<open>2\<^sup>2\<^sup>4\<close> units, and stops at \<open>2\<^sup>1\<^sup>0\<^sup>4\<close>, the spacing of the largest floats. An operation
  returns the float nearest to its exact result, the one with the even multiple when two
  are equally near; when that is beyond the largest float the result is not a number of
  the type and the operation returns \<open>None\<close> (an IEEE machine continues with an infinity).
  Every operation is rounded on its own, as a compiler does that keeps intermediate
  results in single precision and fuses no multiplication with an addition.
\<close>

fun ulp_loop :: "nat \<Rightarrow> real \<Rightarrow> real \<Rightarrow> real" where
  "ulp_loop 0 u a = u"
| "ulp_loop (Suc n) u a = (if a < u * 2 ^ 24 then u else ulp_loop n (2 * u) a)"

definition ulp :: "real \<Rightarrow> real" where
  "ulp x = ulp_loop 253 (1 / 2 ^ 149) \<bar>x\<bar>"

definition nearest_even :: "real \<Rightarrow> int" where
  "nearest_even y =
     (let f = \<lfloor>y\<rfloor>; d = y - of_int f
      in if d < 1 / 2 then f else if 1 / 2 < d then f + 1 else if even f then f else f + 1)"

definition round_float :: "real \<Rightarrow> real" where
  "round_float x = of_int (nearest_even (x / ulp x)) * ulp x"

definition float_max :: real where
  "float_max = (2 ^ 24 - 1) * 2 ^ 104"

definition to_float :: "real \<Rightarrow> real option" where
  "to_float x = (let y = round_float x in if \<bar>y\<bar> \<le> float_max then Some y else None)"

definition float_add :: "real \<Rightarrow> real \<Rightarrow> real option" where
  "float_add a b = to_float (a + b)"

definition float_sub :: "real \<Rightarrow> real \<Rightarrow> real option" where
  "float_sub a b = to_float (a - b)"

definition float_mul :: "real \<Rightarrow> real \<Rightarrow> real option" where
  "float_mul a b = to_float (a * b)"

definition float_div :: "real \<Rightarrow> real \<Rightarrow> real option" where
  "float_div a b = (if b = 0 then None else to_float (a / b))"

text \<open>
  \<^verbatim>\<open>int(f)\<close> drops the fraction of \<open>f\<close>; it is undefined when the integer so obtained is
  not a value of \<^verbatim>\<open>int\<close>.
\<close>

definition to_int :: "real \<Rightarrow> int option" where
  "to_int f = (let i = (if 0 \<le> f then \<lfloor>f\<rfloor> else \<lceil>f\<rceil>) in if in_int i then Some i else None)"

text \<open>A float is a number that rounding leaves as it is.\<close>

definition is_float :: "real \<Rightarrow> bool" where
  "is_float x = (to_float x = Some x)"

subsection \<open>The parallel executor\<close>

text \<open>
  \<^verbatim>\<open>par_for(begin, end, fn)\<close> starts \<^verbatim>\<open>num_cpus = hardware_concurrency()\<close> asynchronous
  workers around one atomic counter. A worker repeats: claim \<^verbatim>\<open>i = idx++\<close>; leave the loop
  when \<^verbatim>\<open>i >= end\<close>; otherwise call \<^verbatim>\<open>fn(i)\<close>. The executor returns when every future
  has been joined. The model is an interleaving semantics: a schedule names the worker that
  takes the next atomic step, and a step is either the claim or the completion of the call.
  The counter is an \<^verbatim>\<open>int\<close>: its increment wraps around from \<open>2\<^sup>3\<^sup>1 - 1\<close> to \<open>-2\<^sup>3\<^sup>1\<close>.
\<close>

datatype worker = Claiming | Calling int | Exited

record pf_state =
  pf_idx :: int
  workers :: "worker list"
  started :: "int list"
  finished :: "int list"

definition pf_init :: "int \<Rightarrow> nat \<Rightarrow> pf_state" where
  "pf_init begin num_cpus =
     \<lparr>pf_idx = begin, workers = replicate num_cpus Claiming, started = [], finished = []\<rparr>"

definition pf_step :: "int \<Rightarrow> nat \<Rightarrow> pf_state \<Rightarrow> pf_state" where
  "pf_step end' cpu s =
     (if length (workers s) \<le> cpu then s
      else case workers s ! cpu of
        Claiming \<Rightarrow>
          (let i = pf_idx s in
           if end' \<le> i
           then s\<lparr>pf_idx := wrap_int (i + 1), workers := (workers s)[cpu := Exited]\<rparr>
           else s\<lparr>pf_idx := wrap_int (i + 1), workers := (workers s)[cpu := Calling i],
                  started := started s @ [i]\<rparr>)
      | Calling i \<Rightarrow>
          s\<lparr>workers := (workers s)[cpu := Claiming], finished := finished s @ [i]\<rparr>
      | Exited \<Rightarrow> s)"

fun pf_run :: "int \<Rightarrow> nat list \<Rightarrow> pf_state \<Rightarrow> pf_state" where
  "pf_run end' [] s = s"
| "pf_run end' (cpu # sched) s = pf_run end' sched (pf_step end' cpu s)"

definition pf_returned :: "pf_state \<Rightarrow> bool" where
  "pf_returned s = list_all (\<lambda>w. w = Exited) (workers s)"

text \<open>The calls that have been started and not yet completed.\<close>

fun calling :: "worker list \<Rightarrow> int list" where
  "calling [] = []"
| "calling (Calling i # ws) = i # calling ws"
| "calling (w # ws) = calling ws"

text \<open>The workers that have left their loop.\<close>

definition exited :: "worker list \<Rightarrow> nat" where
  "exited ws = length (filter (\<lambda>w. w = Exited) ws)"

text \<open>
  The counter stays clear of the largest \<^verbatim>\<open>int\<close> when the end of the range plus the
  number of workers is still an \<^verbatim>\<open>int\<close>: every worker takes the counter past the end once.
\<close>

definition pf_bounded :: "int \<Rightarrow> int \<Rightarrow> nat \<Rightarrow> bool" where
  "pf_bounded begin end' num_cpus = (in_int begin \<and> max begin end' + int num_cpus < 2 ^ 31)"

text \<open>
  The invariant of an execution from \<open>pf_init begin n\<close> that stays clear of the largest
  \<^verbatim>\<open>int\<close>: the counter never falls below \<open>begin\<close> and has passed the end at most once per
  worker that has left; the calls started are exactly the indices claimed below \<open>end\<close>, in
  claim order; every started call is completed or in progress; a worker has left its loop
  only after the counter passed \<open>end\<close>.
\<close>

definition pf_inv :: "int \<Rightarrow> int \<Rightarrow> pf_state \<Rightarrow> bool" where
  "pf_inv begin end' s =
     (begin \<le> pf_idx s \<and>
      pf_idx s \<le> max begin end' + int (exited (workers s)) \<and>
      started s = [begin .. min (pf_idx s) end' - 1] \<and>
      mset (started s) = mset (finished s) + mset (calling (workers s)) \<and>
      (if Exited \<in> set (workers s) then end' < pf_idx s else True))"

text \<open>The progress measure: every step of a worker that has not left its loop lowers it.\<close>

fun worker_weight :: "worker \<Rightarrow> nat" where
  "worker_weight Claiming = 2"
| "worker_weight (Calling i) = 3"
| "worker_weight Exited = 0"

definition pf_measure :: "int \<Rightarrow> pf_state \<Rightarrow> nat" where
  "pf_measure end' s = 3 * nat (end' - pf_idx s) + sum_list (map worker_weight (workers s))"

text \<open>
  A schedule is live when each scheduled worker is still in its loop at the moment it is
  scheduled. While the counter stays clear of the largest \<^verbatim>\<open>int\<close>, a live schedule is never
  longer than the progress measure: the executor has no infinite execution, and it returns
  after at most \<open>3 * (end - begin) + 2 * num_cpus\<close> steps. A state that has not returned
  always has a live worker.
\<close>

fun pf_live :: "int \<Rightarrow> nat list \<Rightarrow> pf_state \<Rightarrow> bool" where
  "pf_live end' [] s = True"
| "pf_live end' (cpu # sched) s =
     (cpu < length (workers s) \<and> workers s ! cpu \<noteq> Exited
      \<and> pf_live end' sched (pf_step end' cpu s))"

subsection \<open>Vectors\<close>

text \<open>The \<^verbatim>\<open>glm\<close> vectors, with the componentwise operations the example uses.\<close>

datatype vec3 = Vec3 (vx: real) (vy: real) (vz: real)

datatype vec4 = Vec4 (cx: real) (cy: real) (cz: real) (cw: real)

definition vmin :: "vec3 \<Rightarrow> vec3 \<Rightarrow> vec3" where
  "vmin a b = Vec3 (min (vx a) (vx b)) (min (vy a) (vy b)) (min (vz a) (vz b))"

definition vmax :: "vec3 \<Rightarrow> vec3 \<Rightarrow> vec3" where
  "vmax a b = Vec3 (max (vx a) (vx b)) (max (vy a) (vy b)) (max (vz a) (vz b))"

definition vsub :: "vec3 \<Rightarrow> vec3 \<Rightarrow> vec3" where
  "vsub a b = Vec3 (vx a - vx b) (vy a - vy b) (vz a - vz b)"

definition vadds :: "vec3 \<Rightarrow> real \<Rightarrow> vec3" where
  "vadds a r = Vec3 (vx a + r) (vy a + r) (vz a + r)"

definition vsubs :: "vec3 \<Rightarrow> real \<Rightarrow> vec3" where
  "vsubs a r = Vec3 (vx a - r) (vy a - r) (vz a - r)"

definition dot3 :: "vec3 \<Rightarrow> vec3 \<Rightarrow> real" where
  "dot3 a b = vx a * vx b + vy a * vy b + vz a * vz b"

text \<open>\<^verbatim>\<open>glm::dot(a - b, a - b)\<close>, the squared distance.\<close>

definition dist2 :: "vec3 \<Rightarrow> vec3 \<Rightarrow> real" where
  "dist2 a b = dot3 (vsub a b) (vsub a b)"

definition water_radius :: real where
  "water_radius = 2"

text \<open>
  The start of every running minimum, \<^verbatim>\<open>1e37f\<close>: the float nearest to \<open>10\<^sup>3\<^sup>7\<close>, which is
  \<open>15777218 * 2\<^sup>9\<^sup>9\<close>.
\<close>

definition big :: real where
  "big = 9999999933815812510711506376257961984"

subsection \<open>Chain selection\<close>

text \<open>
  The loop over the selector (lines 143 to 152). At position \<open>p\<close> it tests
  \<^verbatim>\<open>p[1] == '-' && p[2] && p[2] >= p[1]\<close> and, when that holds, runs
  \<^verbatim>\<open>for (char i = p[1]; i <= p[2]; ++i) addChain(i)\<close> and skips two more bytes; otherwise it
  adds \<^verbatim>\<open>*p\<close>. Both the test and the inner loop start from \<^verbatim>\<open>p[1]\<close>, the dash.
  The inner loop never ends when \<^verbatim>\<open>p[2]\<close> is the largest \<^verbatim>\<open>char\<close>: it is a partial
  function, and \<open>None\<close> is its not returning.
\<close>

definition char_val :: "char \<Rightarrow> 8 word" where
  "char_val c = word_of_nat (of_char c)"

definition val_char :: "8 word \<Rightarrow> char" where
  "val_char w = char_of (unat w)"

partial_function (option) range_loop :: "8 word \<Rightarrow> 8 word \<Rightarrow> char list \<Rightarrow> char list option" where
  "range_loop i hi acc =
     (if i \<le>s hi then range_loop (i + 1) hi (acc @ [val_char i]) else Some acc)"

declare range_loop.simps [code]

fun expand_chains :: "string \<Rightarrow> char list option" where
  "expand_chains [] = Some []"
| "expand_chains [c] = Some [c]"
| "expand_chains [c, d] = map_option ((#) c) (expand_chains [d])"
| "expand_chains (c # d # e # rest) =
     (if d = CHR ''-'' \<and> char_val d \<le>s char_val e
      then (case range_loop (char_val d) (char_val e) [] of
              None \<Rightarrow> None
            | Some ids \<Rightarrow> map_option ((@) ids) (expand_chains rest))
      else map_option ((#) c) (expand_chains (d # e # rest)))"

text \<open>
  The decoder is not part of the example: it is a parameter, the three accessors the
  example calls per chain identifier.
\<close>

record decoder =
  pdb_pos :: "char \<Rightarrow> vec3 list"
  pdb_radii :: "char \<Rightarrow> real list"
  pdb_colors :: "char \<Rightarrow> vec4 list"

record atoms =
  pos :: "vec3 list"
  radii :: "real list"
  colors :: "vec4 list"

definition no_atoms :: atoms where
  "no_atoms = \<lparr>pos = [], radii = [], colors = []\<rparr>"

definition addChain :: "decoder \<Rightarrow> atoms \<Rightarrow> char \<Rightarrow> atoms" where
  "addChain pdb a chainID =
     \<lparr>pos = pos a @ pdb_pos pdb chainID,
      radii = radii a @ pdb_radii pdb chainID,
      colors = colors a @ pdb_colors pdb chainID\<rparr>"

definition add_chains :: "decoder \<Rightarrow> string \<Rightarrow> failure + atoms" where
  "add_chains pdb sel =
     (case expand_chains sel of
        None \<Rightarrow> Inl Diverges
      | Some ids \<Rightarrow> Inr (foldl (addChain pdb) no_atoms ids))"

subsection \<open>Grid extents\<close>

text \<open>
  Lines 169 to 190, in single precision. \<^verbatim>\<open>pos[0]\<close> is read with no test that there is an
  atom, and the loop reads \<^verbatim>\<open>radii[i]\<close> for every index of \<^verbatim>\<open>pos\<close>: both are undefined
  when the vector is too short. Each subtraction, addition, product and the reciprocal of
  the spacing is rounded; \<^verbatim>\<open>glm::min\<close>, \<^verbatim>\<open>glm::max\<close> and \<^verbatim>\<open>std::max\<close> choose one of their
  arguments and round nothing. The division by a spacing of zero is undefined, as is the
  conversion of a sum that does not fit \<^verbatim>\<open>int\<close>. A result beyond the largest float ends
  the computation as undefined as well: on an IEEE machine the infinity that takes its
  place reaches, for radii that are not negative, the conversion to \<^verbatim>\<open>int\<close> on its axis,
  which is undefined for it.
\<close>

record grid =
  gmin :: vec3
  gmax :: vec3
  xdim :: int
  ydim :: int
  zdim :: int

definition float_vsubs :: "vec3 \<Rightarrow> real \<Rightarrow> vec3 option" where
  "float_vsubs a r =
     do { x \<leftarrow> float_sub (vx a) r; y \<leftarrow> float_sub (vy a) r; z \<leftarrow> float_sub (vz a) r;
          Some (Vec3 x y z) }"

definition float_vadds :: "vec3 \<Rightarrow> real \<Rightarrow> vec3 option" where
  "float_vadds a r =
     do { x \<leftarrow> float_add (vx a) r; y \<leftarrow> float_add (vy a) r; z \<leftarrow> float_add (vz a) r;
          Some (Vec3 x y z) }"

fun bbox_loop :: "(vec3 \<times> real) list \<Rightarrow> vec3 \<times> vec3 \<Rightarrow> (vec3 \<times> vec3) option" where
  "bbox_loop [] (mn, mx) = Some (mn, mx)"
| "bbox_loop ((p, r) # rest) (mn, mx) =
     do { lo \<leftarrow> float_vsubs p r; hi \<leftarrow> float_vadds p r;
          bbox_loop rest (vmin mn lo, vmax mx hi) }"

definition max_radius_of :: "real list \<Rightarrow> real" where
  "max_radius_of rs = foldl max 0 rs"

text \<open>\<^verbatim>\<open>int((max - min) * recip_gs + 1)\<close> on one axis.\<close>

definition grid_dim :: "real \<Rightarrow> real \<Rightarrow> real \<Rightarrow> int option" where
  "grid_dim lo hi recip_gs =
     do { extent \<leftarrow> float_sub hi lo; cells \<leftarrow> float_mul extent recip_gs;
          f \<leftarrow> float_add cells 1; to_int f }"

definition extents :: "vec3 list \<Rightarrow> real list \<Rightarrow> real \<Rightarrow> grid option" where
  "extents ps rs grid_spacing =
     do { (mn, mx) \<leftarrow> bbox_loop (zip ps rs) (hd ps, hd ps);
          pad \<leftarrow> float_add water_radius (max_radius_of rs);
          recip_gs \<leftarrow> float_div 1 grid_spacing;
          mn' \<leftarrow> float_vsubs mn pad;
          mx' \<leftarrow> float_vadds mx pad;
          xd \<leftarrow> grid_dim (vx mn') (vx mx') recip_gs;
          yd \<leftarrow> grid_dim (vy mn') (vy mx') recip_gs;
          zd \<leftarrow> grid_dim (vz mn') (vz mx') recip_gs;
          Some \<lparr>gmin = mn', gmax = mx', xdim = xd, ydim = yd, zdim = zd\<rparr> }"

definition grid_extents :: "vec3 list \<Rightarrow> real list \<Rightarrow> real \<Rightarrow> failure + grid" where
  "grid_extents ps rs grid_spacing =
     (if ps = [] \<or> length rs < length ps then Inl Undefined_behaviour
      else case extents ps rs grid_spacing of
             None \<Rightarrow> Inl Undefined_behaviour
           | Some g \<Rightarrow> Inr g)"

subsubsection \<open>The extents in the words of the specification\<close>

text \<open>
  For comparison with \<open>grid_extents\<close>: the corners as the elementwise minimum of
  \<open>position - radius\<close> and maximum of \<open>position + radius\<close>, padded by the probe radius plus
  the largest radius, and \<open>floor((max - min) / spacing) + 1\<close> per axis.
\<close>

definition axis :: "(vec3 \<Rightarrow> real) \<Rightarrow> bool" where
  "axis ax = (ax = vx \<or> ax = vy \<or> ax = vz)"

definition elementwise_min :: "vec3 list \<Rightarrow> real list \<Rightarrow> vec3" where
  "elementwise_min ps rs =
     Vec3 (Min (set (map (\<lambda>(p, r). vx p - r) (zip ps rs))))
          (Min (set (map (\<lambda>(p, r). vy p - r) (zip ps rs))))
          (Min (set (map (\<lambda>(p, r). vz p - r) (zip ps rs))))"

definition elementwise_max :: "vec3 list \<Rightarrow> real list \<Rightarrow> vec3" where
  "elementwise_max ps rs =
     Vec3 (Max (set (map (\<lambda>(p, r). vx p + r) (zip ps rs))))
          (Max (set (map (\<lambda>(p, r). vy p + r) (zip ps rs))))
          (Max (set (map (\<lambda>(p, r). vz p + r) (zip ps rs))))"

definition spec_min_corner :: "vec3 list \<Rightarrow> real list \<Rightarrow> vec3" where
  "spec_min_corner ps rs = vsubs (elementwise_min ps rs) (water_radius + Max (set rs))"

definition spec_max_corner :: "vec3 list \<Rightarrow> real list \<Rightarrow> vec3" where
  "spec_max_corner ps rs = vadds (elementwise_max ps rs) (water_radius + Max (set rs))"

definition spec_dim :: "real \<Rightarrow> real \<Rightarrow> real \<Rightarrow> int" where
  "spec_dim lo hi spacing = \<lfloor>(hi - lo) / spacing\<rfloor> + 1"

definition spec_grid :: "vec3 list \<Rightarrow> real list \<Rightarrow> real \<Rightarrow> grid" where
  "spec_grid ps rs spacing =
     \<lparr>gmin = spec_min_corner ps rs, gmax = spec_max_corner ps rs,
      xdim = spec_dim (vx (spec_min_corner ps rs)) (vx (spec_max_corner ps rs)) spacing,
      ydim = spec_dim (vy (spec_min_corner ps rs)) (vy (spec_max_corner ps rs)) spacing,
      zdim = spec_dim (vz (spec_min_corner ps rs)) (vz (spec_max_corner ps rs)) spacing\<rparr>"

text \<open>
  The computation is exact when none of its operations rounds: every difference and sum it
  forms, on the way the specification describes, is a float, and so are the reciprocal of
  the spacing and, per axis, the extent times that reciprocal, plus one, which fits
  \<^verbatim>\<open>int\<close>.
\<close>

definition exact_dim :: "real \<Rightarrow> real \<Rightarrow> real \<Rightarrow> bool" where
  "exact_dim lo hi spacing =
     (is_float lo \<and> is_float hi \<and> is_float (hi - lo) \<and> is_float ((hi - lo) * (1 / spacing))
      \<and> is_float ((hi - lo) * (1 / spacing) + 1) \<and> (hi - lo) / spacing + 1 < 2 ^ 31)"

definition exact_extents :: "vec3 list \<Rightarrow> real list \<Rightarrow> real \<Rightarrow> bool" where
  "exact_extents ps rs spacing =
     (list_all (\<lambda>(p, r). is_float (vx p - r) \<and> is_float (vy p - r) \<and> is_float (vz p - r)
                       \<and> is_float (vx p + r) \<and> is_float (vy p + r) \<and> is_float (vz p + r))
        (zip ps rs)
      \<and> is_float (water_radius + Max (set rs))
      \<and> is_float (1 / spacing)
      \<and> exact_dim (vx (spec_min_corner ps rs)) (vx (spec_max_corner ps rs)) spacing
      \<and> exact_dim (vy (spec_min_corner ps rs)) (vy (spec_max_corner ps rs)) spacing
      \<and> exact_dim (vz (spec_min_corner ps rs)) (vz (spec_max_corner ps rs)) spacing)"

subsection \<open>The accessible field\<close>

text \<open>
  Lines 193 to 216. A field is a vector of \<open>(xdim+1) * (ydim+1) * (zdim+1)\<close> floats,
  zero-initialised, addressed through \<^verbatim>\<open>idx\<close>. The size and the index are computed in
  \<^verbatim>\<open>int\<close>: an overflow is undefined, and a negative size, converted to \<^verbatim>\<open>size_t\<close>, is
  more than a vector can hold, so that its constructor throws \<^verbatim>\<open>std::length_error\<close>.
  Reading or writing a slot outside the vector is undefined.
\<close>

definition idx :: "grid \<Rightarrow> int \<Rightarrow> int \<Rightarrow> int \<Rightarrow> int option" where
  "idx g x y z =
     do { h \<leftarrow> int_add (ydim g) 1; a \<leftarrow> int_mul z h; b \<leftarrow> int_add a y;
          w \<leftarrow> int_add (xdim g) 1; c \<leftarrow> int_mul b w; int_add c x }"

definition field_size :: "grid \<Rightarrow> failure + nat" where
  "field_size g =
     (case do { w \<leftarrow> int_add (xdim g) 1; h \<leftarrow> int_add (ydim g) 1; a \<leftarrow> int_mul w h;
                d \<leftarrow> int_add (zdim g) 1; int_mul a d } of
        None \<Rightarrow> Inl Undefined_behaviour
      | Some n \<Rightarrow> if n < 0 then Inl Length_error else Inr (nat n))"

definition store :: "real list \<Rightarrow> int option \<Rightarrow> real \<Rightarrow> real list option" where
  "store field i v =
     (case i of
        None \<Rightarrow> None
      | Some k \<Rightarrow> if 0 \<le> k \<and> nat k < length field then Some (field[nat k := v]) else None)"

definition load :: "real list \<Rightarrow> int option \<Rightarrow> real option" where
  "load field i =
     (case i of
        None \<Rightarrow> None
      | Some k \<Rightarrow> if 0 \<le> k \<and> nat k < length field then Some (field ! nat k) else None)"

text \<open>
  The values of the counter of \<^verbatim>\<open>for (int i = 0; i != n; ++i)\<close>. A counter that starts
  above its bound never meets it: the loop runs on into a slot outside the vector or into
  signed overflow, undefined behaviour either way.
\<close>

definition count_to :: "int \<Rightarrow> int list option" where
  "count_to n = (if n < 0 then None else Some [0 .. n - 1])"

text \<open>A loop whose body may be undefined, over the values of its counter.\<close>

fun fold_option :: "('s \<Rightarrow> 'a \<Rightarrow> 's option) \<Rightarrow> 's \<Rightarrow> 'a list \<Rightarrow> 's option" where
  "fold_option f s [] = Some s"
| "fold_option f s (a # as) = (case f s a of None \<Rightarrow> None | Some s' \<Rightarrow> fold_option f s' as)"

text \<open>
  The position of a vertex, \<^verbatim>\<open>x * grid_spacing + min.x\<close> on each axis, and the innermost
  loop: the running minimum over the atoms, started at \<^verbatim>\<open>1e37f\<close>. The loop reads
  \<^verbatim>\<open>radii[i]\<close> for every index of \<^verbatim>\<open>pos\<close>, which is undefined when there are fewer radii.
\<close>

definition vertex_pos :: "grid \<Rightarrow> real \<Rightarrow> int \<Rightarrow> int \<Rightarrow> int \<Rightarrow> vec3" where
  "vertex_pos g grid_spacing x y z =
     Vec3 (real_of_int x * grid_spacing + vx (gmin g))
          (real_of_int y * grid_spacing + vy (gmin g))
          (real_of_int z * grid_spacing + vz (gmin g))"









subsection \<open>The band index\<close>

text \<open>
  Lines 236 to 260. \<^verbatim>\<open>zsorter\<close> holds the vertices of the accessible mesh, sorted by
  \<^verbatim>\<open>std::sort\<close> with \<^verbatim>\<open>cmpz\<close>. \<^verbatim>\<open>std::lower_bound\<close> and \<^verbatim>\<open>std::upper_bound\<close> are the
  binary searches of the standard library, which halve a range \<open>[first, first + len)\<close>:
  \<^verbatim>\<open>lower_bound\<close> moves right while \<^verbatim>\<open>comp(*mid, val)\<close>, \<^verbatim>\<open>upper_bound\<close> while
  \<^verbatim>\<open>!comp(val, *mid)\<close>. Both are the loop \<open>bound_loop\<close> with the test as a parameter.
  Iterators are positions in the list.
\<close>

definition cmpz :: "vec3 \<Rightarrow> vec3 \<Rightarrow> bool" where
  "cmpz a b = (vz a < vz b)"

function bound_loop :: "('a \<Rightarrow> bool) \<Rightarrow> 'a list \<Rightarrow> nat \<Rightarrow> nat \<Rightarrow> nat" where
  "bound_loop go_right xs first len =
     (if len = 0 then first
      else let half = len div 2; mid = first + half
           in if go_right (xs ! mid)
              then bound_loop go_right xs (mid + 1) (len - half - 1)
              else bound_loop go_right xs first half)"
  by pat_completeness auto
termination
  by (relation "measure (\<lambda>(go_right, xs, first, len). len)") auto

definition lower_bound :: "vec3 list \<Rightarrow> vec3 \<Rightarrow> nat" where
  "lower_bound xs val = bound_loop (\<lambda>e. cmpz e val) xs 0 (length xs)"

definition upper_bound :: "vec3 list \<Rightarrow> vec3 \<Rightarrow> nat" where
  "upper_bound xs val = bound_loop (\<lambda>e. \<not> cmpz val e) xs 0 (length xs)"

text \<open>
  The loop \<^verbatim>\<open>for (auto r = p; r != q; ++r)\<close> with its filter on \<open>y\<close>. When \<open>q\<close> lies before
  \<open>p\<close> the iterator never meets \<open>q\<close> and runs past the end of the vector: undefined
  behaviour, the result \<open>None\<close>.
\<close>

definition y_filter :: "vec3 list \<Rightarrow> nat \<Rightarrow> nat \<Rightarrow> real \<Rightarrow> real \<Rightarrow> vec3 list option" where
  "y_filter zsorter p q ypos margin =
     (if q < p then None
      else Some (filter (\<lambda>r. \<bar>vy r - ypos\<bar> \<le> margin) (take (q - p) (drop p zsorter))))"

definition band_query :: "vec3 list \<Rightarrow> real \<Rightarrow> real \<Rightarrow> real \<Rightarrow> vec3 list option" where
  "band_query zsorter zpos ypos margin =
     (let p = lower_bound zsorter (Vec3 0 0 (zpos - margin));
          q = upper_bound zsorter (Vec3 0 0 (zpos + margin))
      in y_filter zsorter p q ypos margin)"

text \<open>
  In the words of the specification: a linear scan of the whole index that keeps the
  entries whose \<open>z\<close> lies in \<open>[targetZ - m, targetZ + m]\<close> and whose \<open>y\<close> lies within \<open>m\<close> of
  \<open>targetY\<close>.
\<close>

definition brute_force_scan :: "vec3 list \<Rightarrow> real \<Rightarrow> real \<Rightarrow> real \<Rightarrow> vec3 list" where
  "brute_force_scan zsorter targetZ targetY m =
     filter (\<lambda>r. targetZ - m \<le> vz r \<and> vz r \<le> targetZ + m \<and> \<bar>vy r - targetY\<bar> \<le> m) zsorter"

subsection \<open>The excluded field\<close>

text \<open>
  Lines 241 to 283. The two bounds are computed once per slab, the filtered list once per
  row. A vertex outside the accessible surface gets \<^verbatim>\<open>outside_value\<close>; a vertex inside gets
  the running minimum of the squared distances to the filtered entries, less the squared
  probe radius, unless that minimum still equals its start \<^verbatim>\<open>1e37f\<close>.
\<close>

definition outside_value :: real where
  "outside_value = - (water_radius * water_radius)"

definition excluded_at :: "real \<Rightarrow> vec3 list \<Rightarrow> vec3 \<Rightarrow> real" where
  "excluded_at acc ysorter xyz =
     (if acc < 0
      then (let v = foldl (\<lambda>v r. min v (dist2 xyz r)) big ysorter
            in if v = big then outside_value else v - water_radius * water_radius)
      else outside_value)"

definition excluded_row ::
  "grid \<Rightarrow> real \<Rightarrow> real list \<Rightarrow> vec3 list \<Rightarrow> int \<Rightarrow> int \<Rightarrow> real list \<Rightarrow> real list option" where
  "excluded_row g grid_spacing accessible ysorter z y field =
     do { w \<leftarrow> int_add (xdim g) 1; xs \<leftarrow> count_to w;
          fold_option (\<lambda>f x. do { acc \<leftarrow> load accessible (idx g x y z);
                                   store f (idx g x y z)
                                     (excluded_at acc ysorter (vertex_pos g grid_spacing x y z)) })
            field xs }"

definition excluded_slab ::
  "grid \<Rightarrow> real \<Rightarrow> real list \<Rightarrow> vec3 list \<Rightarrow> int \<Rightarrow> real list \<Rightarrow> real list option" where
  "excluded_slab g grid_spacing accessible zsorter z field =
     (let zpos = real_of_int z * grid_spacing + vz (gmin g);
          p = lower_bound zsorter (Vec3 0 0 (zpos - (water_radius + grid_spacing)));
          q = upper_bound zsorter (Vec3 0 0 (zpos + (water_radius + grid_spacing)))
      in do { h \<leftarrow> int_add (ydim g) 1; ys \<leftarrow> count_to h;
              fold_option
                (\<lambda>f y. do { ysorter \<leftarrow> y_filter zsorter p q (real_of_int y * grid_spacing + vy (gmin g))
                                          (water_radius + grid_spacing);
                             excluded_row g grid_spacing accessible ysorter z y f })
                field ys })"

definition excluded_fill ::
  "grid \<Rightarrow> real \<Rightarrow> real list \<Rightarrow> vec3 list \<Rightarrow> nat \<Rightarrow> nat list \<Rightarrow> failure + real list" where
  "excluded_fill g grid_spacing accessible zsorter num_cpus sched =
     (case field_size g of
        Inl e \<Rightarrow> Inl e
      | Inr n \<Rightarrow>
          (case do { d \<leftarrow> int_add (zdim g) 1;
                     fold_option (\<lambda>f z. excluded_slab g grid_spacing accessible zsorter z f)
                       (replicate n 0) (finished (pf_run d sched (pf_init 0 num_cpus))) } of
             None \<Rightarrow> Inl Undefined_behaviour
           | Some field \<Rightarrow> Inr field))"



definition excluded_as_claimed :: "real \<Rightarrow> vec3 list \<Rightarrow> vec3 \<Rightarrow> real" where
  "excluded_as_claimed acc band xyz =
     (if 0 \<le> acc then - (water_radius ^ 2)
      else if band = [] then - (water_radius ^ 2)
      else Min (set (map (dist2 xyz) band)) - water_radius ^ 2)"

definition excluded_upto_big :: "real \<Rightarrow> vec3 list \<Rightarrow> vec3 \<Rightarrow> real" where
  "excluded_upto_big acc band xyz =
     (if 0 \<le> acc then - (water_radius ^ 2)
      else if list_ex (\<lambda>r. dist2 xyz r < big) band
           then Min (set (map (dist2 xyz) band)) - water_radius ^ 2
           else - (water_radius ^ 2))"

subsection \<open>The vertex colour\<close>

text \<open>
  Lines 154 to 167 and 289 to 308. The coloured atoms are the atoms whose colour is not
  white. \<^verbatim>\<open>egen\<close> starts from white, adds the colour of every atom with a positive weight
  \<^verbatim>\<open>r*r*4 - d2\<close>, the weight clamped to \<open>[0, 1]\<close>, then zeroes alpha, normalises and sets
  alpha to 1. \<^verbatim>\<open>glm::normalize(v)\<close> is \<^verbatim>\<open>v * inversesqrt(dot(v, v))\<close>: for the zero vector
  the float result is not a number, in the model \<open>None\<close>.
\<close>

record colored_atom =
  ca_color :: vec4
  ca_pos :: vec3
  ca_radius :: real

definition white :: vec4 where
  "white = Vec4 1 1 1 1"

definition colored_atoms :: "atoms \<Rightarrow> colored_atom list" where
  "colored_atoms a =
     map (\<lambda>(c, p, r). \<lparr>ca_color = c, ca_pos = p, ca_radius = r\<rparr>)
       (filter (\<lambda>(c, p, r). c \<noteq> white) (zip (colors a) (zip (pos a) (radii a))))"

definition vadd4 :: "vec4 \<Rightarrow> vec4 \<Rightarrow> vec4" where
  "vadd4 a b = Vec4 (cx a + cx b) (cy a + cy b) (cz a + cz b) (cw a + cw b)"

definition vscale4 :: "vec4 \<Rightarrow> real \<Rightarrow> vec4" where
  "vscale4 a s = Vec4 (cx a * s) (cy a * s) (cz a * s) (cw a * s)"

definition dot4 :: "vec4 \<Rightarrow> vec4 \<Rightarrow> real" where
  "dot4 a b = cx a * cx b + cy a * cy b + cz a * cz b + cw a * cw b"

definition set_w :: "real \<Rightarrow> vec4 \<Rightarrow> vec4" where
  "set_w w a = Vec4 (cx a) (cy a) (cz a) w"

definition normalize4 :: "vec4 \<Rightarrow> vec4 option" where
  "normalize4 v = (if dot4 v v = 0 then None else Some (vscale4 v (1 / sqrt (dot4 v v))))"

definition blend :: "vec3 \<Rightarrow> vec4 \<Rightarrow> colored_atom \<Rightarrow> vec4" where
  "blend xyz color a =
     (let r = ca_radius a;
          d2 = dist2 xyz (ca_pos a);
          weight = (r * r * 4 - d2) * 1
      in if weight > 0
         then vadd4 color (vscale4 (ca_color a) (max 0 (min weight 1)))
         else color)"

definition egen_color :: "vec3 \<Rightarrow> colored_atom list \<Rightarrow> vec4 option" where
  "egen_color xyz cas =
     map_option (set_w 1) (normalize4 (set_w 0 (foldl (blend xyz) white cas)))"

text \<open>The neutral colour after the normalisation: grey of length 1, opaque.\<close>

definition neutral_normalized :: vec4 where
  "neutral_normalized = Vec4 (1 / sqrt 3) (1 / sqrt 3) (1 / sqrt 3) 1"

text \<open>The distance of a vertex to an atom, and the atoms whose colour has no negative channel.\<close>

definition distance :: "vec3 \<Rightarrow> vec3 \<Rightarrow> real" where
  "distance a b = sqrt (dist2 a b)"

definition rgb_nonneg :: "colored_atom \<Rightarrow> bool" where
  "rgb_nonneg a = (0 \<le> cx (ca_color a) \<and> 0 \<le> cy (ca_color a) \<and> 0 \<le> cz (ca_color a))"

subsection \<open>Arguments, the run and the name of the output file\<close>

text \<open>
  Lines 64 to 90: the loop over \<^verbatim>\<open>argv[1..]\<close>. An option that takes a value needs a next
  argument (\<^verbatim>\<open>i < argc-1\<close>); without one it falls through to the test for a leading dash.
\<close>

record options =
  pdb_filename :: "string option"
  output_path :: string
  grid_spacing_text :: string
  error :: bool
  list_chains :: bool
  chains :: string

definition default_options :: options where
  "default_options =
     \<lparr>pdb_filename = None, output_path = '''', grid_spacing_text = ''0.25'',
      error = False, list_chains = False, chains = ''A-Z''\<rparr>"

fun parse_args :: "string list \<Rightarrow> options \<Rightarrow> options" where
  "parse_args [] opts = opts"
| "parse_args (arg # rest) opts =
     (if arg = ''--grid-spacing'' \<and> rest \<noteq> []
        then parse_args (tl rest) (opts\<lparr>grid_spacing_text := hd rest\<rparr>)
      else if arg = ''--chains'' \<and> rest \<noteq> []
        then parse_args (tl rest) (opts\<lparr>chains := hd rest\<rparr>)
      else if arg = ''-o'' \<and> rest \<noteq> []
        then parse_args (tl rest) (opts\<lparr>output_path := hd rest\<rparr>)
      else if arg = ''--help''
        then parse_args rest (opts\<lparr>error := True\<rparr>)
      else if arg = ''--list-chains''
        then parse_args rest (opts\<lparr>list_chains := True\<rparr>)
      else if arg \<noteq> [] \<and> hd arg = CHR ''-''
        then parse_args rest (opts\<lparr>error := True\<rparr>)
      else parse_args rest
             (opts\<lparr>error := (error opts \<or> pdb_filename opts \<noteq> None),
                   pdb_filename := Some arg\<rparr>))"

text \<open>
  Lines 312 to 324. \<^verbatim>\<open>last_slash\<close> ends after the last slash or backslash of the file
  name; \<^verbatim>\<open>last_dot\<close> is the last dot after it, or the end of the name. \<^verbatim>\<open>fmt\<close> prints into
  a static buffer of 256 bytes with \<^verbatim>\<open>snprintf\<close>, which keeps at most 255 bytes.
\<close>

fun skip_dirs :: "string \<Rightarrow> string \<Rightarrow> string" where
  "skip_dirs [] last_slash = last_slash"
| "skip_dirs (c # cs) last_slash =
     (if c = CHR ''/'' \<or> c = CHR 0x5C then skip_dirs cs cs else skip_dirs cs last_slash)"

fun find_dot :: "string \<Rightarrow> nat \<Rightarrow> nat \<Rightarrow> nat" where
  "find_dot [] i last_dot = last_dot"
| "find_dot (c # cs) i last_dot = find_dot cs (Suc i) (if c = CHR ''.'' then i else last_dot)"

definition stem_of :: "string \<Rightarrow> string" where
  "stem_of filename =
     (let last_slash = skip_dirs filename filename
      in take (find_dot last_slash 0 (length last_slash)) last_slash)"

definition fmt :: "string \<Rightarrow> string" where
  "fmt str = take 255 str"

definition out_filename :: "string \<Rightarrow> string \<Rightarrow> string \<Rightarrow> string" where
  "out_filename filename sel spacing_text =
     fmt (stem_of filename @ ''_'' @ sel @ ''_'' @ spacing_text @ ''.fbx'')"

text \<open>
  The constructor \<^verbatim>\<open>molecules\<close>, as far as its control flow decides what is written: the
  spacing, \<^verbatim>\<open>float(atof(grid_spacing_text))\<close>, which is undefined when the number is beyond
  the floats; usage and return; the listing of the chains and return; the atoms of the
  selected chains; the extents; the vector of the first field; then the fields and the two
  extractions, modelled above, which do not enter the name; at last the file. \<^verbatim>\<open>atof\<close>
  and the decoder of the input file are parameters.
\<close>

datatype run_result = Chains_listed | Written string

definition molecules_run :: "(string \<Rightarrow> real) \<Rightarrow> decoder \<Rightarrow> options \<Rightarrow> failure + run_result" where
  "molecules_run atof pdb opts =
     (case to_float (atof (grid_spacing_text opts)) of
        None \<Rightarrow> Inl Undefined_behaviour
      | Some grid_spacing \<Rightarrow>
          (case pdb_filename opts of
             None \<Rightarrow> Inl Usage
           | Some filename \<Rightarrow>
               if error opts then Inl Usage
               else if list_chains opts then Inr Chains_listed
               else (case add_chains pdb (chains opts) of
                       Inl e \<Rightarrow> Inl e
                     | Inr a \<Rightarrow>
                         (case grid_extents (pos a) (radii a) grid_spacing of
                            Inl e \<Rightarrow> Inl e
                          | Inr g \<Rightarrow>
                              (case field_size g of
                                 Inl e \<Rightarrow> Inl e
                               | Inr n \<Rightarrow>
                                   Inr (Written (out_filename filename (chains opts)
                                                   (grid_spacing_text opts))))))))"

definition molecules :: "(string \<Rightarrow> real) \<Rightarrow> decoder \<Rightarrow> string list \<Rightarrow> failure + run_result" where
  "molecules atof pdb args = molecules_run atof pdb (parse_args args default_options)"

text \<open>The name the claim gives, never shortened.\<close>

definition claimed_name :: "string \<Rightarrow> string \<Rightarrow> string \<Rightarrow> string" where
  "claimed_name filename sel spacing_text =
     stem_of filename @ ''_'' @ sel @ ''_'' @ spacing_text @ ''.fbx''"

text \<open>The options the run reads after the loop over the arguments: all but \<^verbatim>\<open>output_path\<close>.\<close>

definition options_read :: "options \<Rightarrow> string option \<times> string \<times> bool \<times> bool \<times> string" where
  "options_read opts =
     (pdb_filename opts, grid_spacing_text opts, error opts, list_chains opts, chains opts)"

text \<open>
  For the examples: a decoded file whose only chain, \<open>A\<close>, has one white atom of radius 1
  at the origin, and \<^verbatim>\<open>atof\<close> on the two spacing texts the examples use.
\<close>

definition example_pdb :: decoder where
  "example_pdb =
     \<lparr>pdb_pos = (\<lambda>c. if c = CHR ''A'' then [Vec3 0 0 0] else []),
      pdb_radii = (\<lambda>c. if c = CHR ''A'' then [1] else []),
      pdb_colors = (\<lambda>c. if c = CHR ''A'' then [white] else [])\<rparr>"

definition example_atof :: "string \<Rightarrow> real" where
  "example_atof s = (if s = ''1'' then 1 else if s = ''0.25'' then 1 / 4 else 0)"

section \<open>Properties\<close>

subsection \<open>Properties of the single-precision numbers\<close>

text \<open>
  The loop returns its start doubled \<open>j\<close> times, where \<open>j\<close> is the first count at which the
  number lies below \<open>2\<^sup>2\<^sup>4\<close> units, or the bound of the loop.
\<close>

lemma ulp_loop_spec:
  assumes "0 < u"
  shows "\<exists>j\<le>n. ulp_loop n u a = u * 2 ^ j \<and> (j = 0 \<or> u * 2 ^ j * 2 ^ 23 \<le> a)
              \<and> (j = n \<or> a < u * 2 ^ j * 2 ^ 24)"
  using assms
proof (induction n arbitrary: u)
  case 0
  then show ?case by simp
next
  case (Suc n)
  show ?case
  proof (cases "a < u * 2 ^ 24")
    case True
    then have "ulp_loop (Suc n) u a = u * 2 ^ 0" "a < u * 2 ^ 0 * 2 ^ 24" by simp_all
    then show ?thesis by blast
  next
    case False
    from Suc.prems have "0 < 2 * u" by simp
    from Suc.IH[OF this] obtain j where j: "j \<le> n" "ulp_loop n (2 * u) a = 2 * u * 2 ^ j"
      "j = 0 \<or> 2 * u * 2 ^ j * 2 ^ 23 \<le> a" "j = n \<or> a < 2 * u * 2 ^ j * 2 ^ 24"
      by blast
    have s: "2 * u * 2 ^ j = u * 2 ^ Suc j" by simp
    have low: "u * 2 ^ Suc j * 2 ^ 23 \<le> a"
    proof (cases "j = 0")
      case True
      have "u * 2 ^ Suc 0 * 2 ^ 23 = u * 2 ^ 24" by simp
      with False True show ?thesis by simp
    next
      case F: False
      with j(3) show ?thesis by (simp only: s) simp
    qed
    have 1: "Suc j \<le> Suc n" using j(1) by simp
    have 2: "ulp_loop (Suc n) u a = u * 2 ^ Suc j"
      using False j(2) by (simp only: ulp_loop.simps s if_False)
    have 3: "Suc j = Suc n \<or> a < u * 2 ^ Suc j * 2 ^ 24"
      using j(4) by (simp only: s) simp
    from 1 2 3 low show ?thesis by blast
  qed
qed

lemma ulp_spec:
  "\<exists>j\<le>253. ulp x = 1 / 2 ^ 149 * 2 ^ j \<and> (j = 0 \<or> ulp x * 2 ^ 23 \<le> \<bar>x\<bar>)
             \<and> (j = 253 \<or> \<bar>x\<bar> < ulp x * 2 ^ 24)"
proof -
  have "(0::real) < 1 / 2 ^ 149" by simp
  from ulp_loop_spec[OF this, of 253 "\<bar>x\<bar>"] obtain j where
    "j \<le> 253" "ulp_loop 253 (1 / 2 ^ 149) \<bar>x\<bar> = 1 / 2 ^ 149 * 2 ^ j"
    "j = 0 \<or> 1 / 2 ^ 149 * 2 ^ j * 2 ^ 23 \<le> \<bar>x\<bar>" "j = 253 \<or> \<bar>x\<bar> < 1 / 2 ^ 149 * 2 ^ j * 2 ^ 24"
    by blast
  then show ?thesis unfolding ulp_def by metis
qed

lemma ulp_pos: "0 < ulp x"
proof -
  from ulp_spec[of x] obtain j where j: "ulp x = 1 / 2 ^ 149 * 2 ^ j" by blast
  have "(0::real) < 1 / 2 ^ 149 * 2 ^ j" by simp
  then show ?thesis by (simp only: j)
qed

lemma pow2_gap:
  fixes c a :: real
  assumes "0 < c" and "c * 2 ^ i * 2 ^ 23 \<le> a" and "a < c * 2 ^ j * 2 ^ 24"
  shows "i \<le> j"
proof -
  from assms(2,3) have "c * (2 ^ i * 2 ^ 23) < c * (2 ^ j * 2 ^ 24)"
    by (simp only: mult.assoc)
  with assms(1) have "(2::real) ^ i * 2 ^ 23 < 2 ^ j * 2 ^ 24"
    by (simp only: mult_less_cancel_left_pos)
  then have "(2::real) ^ (i + 23) < 2 ^ (j + 24)" by (simp only: power_add)
  then have "i + 23 < j + 24" by (simp only: power_strict_increasing_iff)
  then show ?thesis by simp
qed

text \<open>The unit of a number is determined by the binade the number lies in.\<close>

lemma ulp_eqI:
  assumes "u = 1 / 2 ^ 149 * 2 ^ j" and "j \<le> 253"
    and "j = 0 \<or> u * 2 ^ 23 \<le> \<bar>x\<bar>" and "j = 253 \<or> \<bar>x\<bar> < u * 2 ^ 24"
  shows "ulp x = u"
proof -
  have c: "(0::real) < 1 / 2 ^ 149" by simp
  from ulp_spec[of x] obtain i where i: "i \<le> 253" "ulp x = 1 / 2 ^ 149 * 2 ^ i"
    "i = 0 \<or> ulp x * 2 ^ 23 \<le> \<bar>x\<bar>" "i = 253 \<or> \<bar>x\<bar> < ulp x * 2 ^ 24"
    by blast
  have le: "i \<le> j"
  proof (cases "i = 0 \<or> j = 253")
    case True
    with i(1) assms(2) show ?thesis by auto
  next
    case False
    with i(3) assms(4) have "1 / 2 ^ 149 * 2 ^ i * 2 ^ 23 \<le> \<bar>x\<bar>" "\<bar>x\<bar> < 1 / 2 ^ 149 * 2 ^ j * 2 ^ 24"
      unfolding i(2) assms(1) by blast+
    then show ?thesis by (rule pow2_gap[OF c])
  qed
  have ge: "j \<le> i"
  proof (cases "j = 0 \<or> i = 253")
    case True
    with i(1) assms(2) show ?thesis by auto
  next
    case False
    with assms(3) i(4) have "1 / 2 ^ 149 * 2 ^ j * 2 ^ 23 \<le> \<bar>x\<bar>" "\<bar>x\<bar> < 1 / 2 ^ 149 * 2 ^ i * 2 ^ 24"
      unfolding i(2) assms(1) by blast+
    then show ?thesis by (rule pow2_gap[OF c])
  qed
  from le ge have "i = j" by simp
  with i(2) assms(1) show ?thesis by simp
qed

lemma to_float_eqI:
  assumes "ulp x = u" and "nearest_even (x / u) = m" and "\<bar>of_int m * u\<bar> \<le> float_max"
  shows "to_float x = Some (of_int m * u)"
  using assms by (simp add: to_float_def round_float_def)

text \<open>
  The rounding of a number, given the count \<open>j\<close> of its binade: the unit is
  \<open>2\<^sup>j\<^sup>-\<^sup>1\<^sup>4\<^sup>9\<close> and the result the nearest multiple of it.
\<close>

lemma to_float_at:
  assumes "j \<le> 253"
    and "j = 0 \<or> 1 / 2 ^ 149 * 2 ^ j * 2 ^ 23 \<le> \<bar>x\<bar>"
    and "j = 253 \<or> \<bar>x\<bar> < 1 / 2 ^ 149 * 2 ^ j * 2 ^ 24"
    and "nearest_even (x / (1 / 2 ^ 149 * 2 ^ j)) = m"
    and "\<bar>of_int m * (1 / 2 ^ 149 * 2 ^ j)\<bar> \<le> float_max"
    and "y = of_int m * (1 / 2 ^ 149 * 2 ^ j)"
  shows "to_float x = Some y"
  using to_float_eqI[OF ulp_eqI[OF refl assms(1-3)] assms(4,5)] assms(6) by simp

lemma nearest_even_int: "nearest_even (of_int m) = m"
  by (simp add: nearest_even_def)

text \<open>
  A multiple \<open>m / 2\<^sup>k\<close> of a power of two, with \<open>m\<close> below \<open>2\<^sup>2\<^sup>4\<close> in absolute value and \<open>k\<close>
  at most 149, is a float.
\<close>

lemma cross_less:
  fixes c d p q r :: real
  assumes "0 < c" and "0 < d" and "1 / c * p * q < r / d"
  shows "p * q * d < r * c"
  using assms by (simp add: field_simps)

lemma is_float_dyadic:
  assumes m: "\<bar>m\<bar> < 2 ^ 24" and k: "k \<le> 149"
  shows "is_float (of_int m / 2 ^ k)"
proof -
  let ?x = "real_of_int m / 2 ^ k"
  from ulp_spec[of ?x] obtain j where j: "j \<le> 253" "ulp ?x = 1 / 2 ^ 149 * 2 ^ j"
    "j = 0 \<or> ulp ?x * 2 ^ 23 \<le> \<bar>?x\<bar>" by blast
  have ax: "\<bar>?x\<bar> < 2 ^ 24 / 2 ^ k"
  proof -
    from m have "\<bar>real_of_int m\<bar> < 2 ^ 24"
      by (metis of_int_abs of_int_less_numeral_power_cancel_iff)
    then show ?thesis by (simp add: divide_strict_right_mono)
  qed
  have jk: "j + k \<le> 149"
  proof (cases "j = 0")
    case True
    with k show ?thesis by simp
  next
    case False
    with j(3) have "ulp ?x * 2 ^ 23 \<le> \<bar>?x\<bar>" by blast
    then have "1 / 2 ^ 149 * 2 ^ j * 2 ^ 23 \<le> \<bar>?x\<bar>" by (simp only: j(2))
    from this ax have "1 / 2 ^ 149 * 2 ^ j * 2 ^ 23 < (2::real) ^ 24 / 2 ^ k"
      by (rule le_less_trans)
    then have "(2::real) ^ j * 2 ^ 23 * 2 ^ k < 2 ^ 24 * 2 ^ 149"
      by (rule cross_less[rotated 2]) simp_all
    then have "(2::real) ^ (j + 23 + k) < 2 ^ (24 + 149)" by (simp only: power_add)
    then have "j + 23 + k < 24 + 149" by (simp only: power_strict_increasing_iff)
    then show ?thesis by simp
  qed
  define d where "d = 149 - (j + k)"
  with jk have e: "149 = d + j + k" by simp
  have q: "?x / ulp ?x = of_int (m * 2 ^ d)"
    unfolding j(2) by (simp only: e power_add) (simp add: field_simps)
  have r: "round_float ?x = ?x"
    unfolding round_float_def q nearest_even_int
    using q ulp_pos[of ?x] by (simp add: field_simps)
  have "\<bar>?x\<bar> \<le> float_max"
  proof -
    have "(2::real) ^ 24 / 2 ^ k \<le> 2 ^ 24" by (simp add: field_simps)
    with ax have "\<bar>?x\<bar> < 2 ^ 24" by simp
    then show ?thesis by (simp add: float_max_def)
  qed
  with r show ?thesis by (simp add: is_float_def to_float_def)
qed

lemma is_float_int: "\<bar>m\<bar> < 2 ^ 24 \<Longrightarrow> is_float (of_int m)"
  using is_float_dyadic[of m 0] by simp

lemma is_float_numeral [simp]:
  "(numeral n :: int) < 2 ^ 24 \<Longrightarrow> is_float (numeral n)"
  "(numeral n :: int) < 2 ^ 24 \<Longrightarrow> is_float (- numeral n)"
  "is_float 0" "is_float 1" "is_float (- 1)"
  using is_float_int[of "numeral n"] is_float_int[of "- numeral n"] is_float_int[of 0]
    is_float_int[of 1] is_float_int[of "- 1"]
  by simp_all

text \<open>The conversion to \<^verbatim>\<open>int\<close> of a number that is not negative and fits.\<close>

lemma to_int_floor: "0 \<le> f \<Longrightarrow> f < 2 ^ 31 \<Longrightarrow> to_int f = Some \<lfloor>f\<rfloor>"
proof -
  assume f: "0 \<le> f" "f < 2 ^ 31"
  then have "0 \<le> \<lfloor>f\<rfloor>" by simp
  moreover from f(2) have "\<lfloor>f\<rfloor> < 2 ^ 31" by (simp add: floor_less_iff)
  ultimately show ?thesis using f(1) by (simp add: to_int_def in_int_def)
qed

lemma float_exact:
  "is_float (a + b) \<Longrightarrow> float_add a b = Some (a + b)"
  "is_float (a - b) \<Longrightarrow> float_sub a b = Some (a - b)"
  "is_float (a * b) \<Longrightarrow> float_mul a b = Some (a * b)"
  "is_float (a / b) \<Longrightarrow> b \<noteq> 0 \<Longrightarrow> float_div a b = Some (a / b)"
  by (simp_all add: is_float_def float_add_def float_sub_def float_mul_def float_div_def)

text \<open>The constant \<^verbatim>\<open>1e37f\<close> of the source is the number \<open>big\<close>.\<close>

lemma big_float: "to_float (10 ^ 37) = Some big"
  unfolding big_def
  by (rule to_float_at[where j = 248 and m = 15777218])
     (simp_all add: nearest_even_def float_max_def)

subsection \<open>Properties of the parallel executor\<close>

subsubsection \<open>Invariant and progress\<close>


lemma wrap_int_id: "in_int i \<Longrightarrow> wrap_int i = i"
  by (simp add: in_int_def wrap_int_def)


lemma exited_le: "exited ws \<le> length ws"
  by (simp add: exited_def)

lemma exited_leave:
  "k < length ws \<Longrightarrow> ws ! k \<noteq> Exited \<Longrightarrow> exited (ws[k := Exited]) = Suc (exited ws)"
proof (induction ws arbitrary: k)
  case Nil
  then show ?case by simp
next
  case (Cons a ws)
  then show ?case by (cases k) (simp_all add: exited_def)
qed

lemma exited_stay:
  "k < length ws \<Longrightarrow> ws ! k \<noteq> Exited \<Longrightarrow> w \<noteq> Exited \<Longrightarrow> exited (ws[k := w]) = exited ws"
proof (induction ws arbitrary: k)
  case Nil
  then show ?case by simp
next
  case (Cons a ws)
  then show ?case by (cases k) (simp_all add: exited_def)
qed

lemma exited_less: "k < length ws \<Longrightarrow> ws ! k \<noteq> Exited \<Longrightarrow> exited ws < length ws"
  using exited_leave[of k ws] exited_le[of "ws[k := Exited]"] by simp


lemma calling_update:
  "k < length ws \<Longrightarrow>
   mset (calling (ws[k := w])) + mset (calling [ws ! k]) = mset (calling ws) + mset (calling [w])"
proof (induction ws arbitrary: k)
  case Nil
  then show ?case by simp
next
  case (Cons a ws)
  show ?case
  proof (cases k)
    case 0
    then show ?thesis by (cases a; cases w) simp_all
  next
    case (Suc j)
    with Cons.prems have "j < length ws" by simp
    from Cons.IH[OF this] Suc show ?thesis by (cases a) simp_all
  qed
qed

lemma upto_claim: "b \<le> i \<Longrightarrow> i < e \<Longrightarrow> [b .. min (i + 1) e - 1] = [b .. min i e - 1] @ [i]"
  by (simp add: min_def upto_rec2)

lemma upto_snoc: "b \<le> i \<Longrightarrow> [b .. i - 1] @ [i] = [b .. i]"
  using upto_rec2[of b i] by simp

lemma upto_past: "e \<le> i \<Longrightarrow> [b .. min (i + 1) e - 1] = [b .. min i e - 1]"
  by (simp add: min_def)

lemma pf_invI:
  "b \<le> pf_idx s \<Longrightarrow> pf_idx s \<le> max b e + int (exited (workers s)) \<Longrightarrow>
   started s = [b .. min (pf_idx s) e - 1] \<Longrightarrow>
   mset (started s) = mset (finished s) + mset (calling (workers s)) \<Longrightarrow>
   (Exited \<in> set (workers s) \<Longrightarrow> e < pf_idx s) \<Longrightarrow> pf_inv b e s"
  by (simp add: pf_inv_def)

lemma pf_invD:
  assumes "pf_inv b e s"
  shows "b \<le> pf_idx s" and "started s = [b .. min (pf_idx s) e - 1]"
    and "mset (started s) = mset (finished s) + mset (calling (workers s))"
    and "Exited \<in> set (workers s) \<Longrightarrow> e < pf_idx s"
    and "pf_idx s \<le> max b e + int (exited (workers s))"
proof -
  from assms have c: "b \<le> pf_idx s \<and> pf_idx s \<le> max b e + int (exited (workers s)) \<and>
      started s = [b .. min (pf_idx s) e - 1] \<and>
      mset (started s) = mset (finished s) + mset (calling (workers s)) \<and>
      (if Exited \<in> set (workers s) then e < pf_idx s else True)"
    unfolding pf_inv_def .
  from c show "b \<le> pf_idx s" by blast
  from c show "started s = [b .. min (pf_idx s) e - 1]" by blast
  from c show "mset (started s) = mset (finished s) + mset (calling (workers s))" by blast
  from c show "pf_idx s \<le> max b e + int (exited (workers s))" by blast
  assume "Exited \<in> set (workers s)"
  moreover from c have "if Exited \<in> set (workers s) then e < pf_idx s else True" by blast
  ultimately show "e < pf_idx s" by simp
qed

lemma pf_step_claim_exit:
  "k < length (workers s) \<Longrightarrow> workers s ! k = Claiming \<Longrightarrow> e \<le> pf_idx s \<Longrightarrow>
   in_int (pf_idx s + 1) \<Longrightarrow>
   pf_step e k s = s\<lparr>pf_idx := pf_idx s + 1, workers := (workers s)[k := Exited]\<rparr>"
  by (simp add: pf_step_def Let_def wrap_int_id)

lemma pf_step_claim_call:
  "k < length (workers s) \<Longrightarrow> workers s ! k = Claiming \<Longrightarrow> pf_idx s < e \<Longrightarrow>
   in_int (pf_idx s + 1) \<Longrightarrow>
   pf_step e k s = s\<lparr>pf_idx := pf_idx s + 1, workers := (workers s)[k := Calling (pf_idx s)],
                      started := started s @ [pf_idx s]\<rparr>"
  by (simp add: pf_step_def Let_def wrap_int_id)

text \<open>A worker that has not left finds the counter below the largest \<^verbatim>\<open>int\<close>.\<close>

lemma pf_claim_in_int:
  assumes "pf_inv b e s" and "pf_bounded b e (length (workers s))"
    and "k < length (workers s)" and "workers s ! k \<noteq> Exited"
  shows "in_int (pf_idx s + 1)"
proof -
  note inv = pf_invD[OF assms(1)]
  from exited_less[OF assms(3,4)] have "int (exited (workers s)) + 1 \<le> int (length (workers s))"
    by simp
  with inv(5) assms(2) have "pf_idx s + 1 < 2 ^ 31" by (simp add: pf_bounded_def)
  moreover from inv(1) assms(2) have "- (2 ^ 31) \<le> pf_idx s + 1"
    by (simp add: pf_bounded_def in_int_def)
  ultimately show ?thesis by (simp add: in_int_def)
qed

lemma pf_step_complete:
  "k < length (workers s) \<Longrightarrow> workers s ! k = Calling i \<Longrightarrow>
   pf_step e k s = s\<lparr>workers := (workers s)[k := Claiming], finished := finished s @ [i]\<rparr>"
  by (simp add: pf_step_def)

lemma Exited_update:
  "Exited \<in> set (ws[k := w]) \<Longrightarrow> w \<noteq> Exited \<Longrightarrow> Exited \<in> set ws"
  using set_update_subset_insert[of ws k w] by auto

lemma pf_inv_step:
  assumes "pf_inv b e s" and bnd: "pf_bounded b e (length (workers s))"
  shows "pf_inv b e (pf_step e k s)"
proof (cases "k < length (workers s)")
  case False
  then show ?thesis using assms by (simp add: pf_step_def)
next
  case k: True
  note inv = pf_invD[OF assms(1)]
  show ?thesis
  proof (cases "workers s ! k")
    case Claiming
    then have live: "workers s ! k \<noteq> Exited" by simp
    note fits = pf_claim_in_int[OF assms k live]
    show ?thesis
    proof (cases "e \<le> pf_idx s")
      case True
      from calling_update[OF k, of "Exited"] Claiming
      have c: "mset (calling ((workers s)[k := Exited])) = mset (calling (workers s))" by simp
      let ?s' = "s\<lparr>pf_idx := pf_idx s + 1, workers := (workers s)[k := Exited]\<rparr>"
      show ?thesis
        unfolding pf_step_claim_exit[OF k Claiming True fits]
      proof (rule pf_invI)
        show "b \<le> pf_idx ?s'" using inv(1) by simp
        show "pf_idx ?s' \<le> max b e + int (exited (workers ?s'))"
          using inv(5) exited_leave[OF k live] by simp
        show "started ?s' = [b .. min (pf_idx ?s') e - 1]"
          using inv(2) True by (simp add: upto_past)
        show "mset (started ?s') = mset (finished ?s') + mset (calling (workers ?s'))"
          using inv(3) c by simp
        show "e < pf_idx ?s'" using True by simp
      qed
    next
      case False
      then have lt: "pf_idx s < e" by simp
      from calling_update[OF k, of "Calling (pf_idx s)"] Claiming
      have c: "mset (calling ((workers s)[k := Calling (pf_idx s)]))
               = mset (calling (workers s)) + {#pf_idx s#}" by simp
      let ?s' = "s\<lparr>pf_idx := pf_idx s + 1, workers := (workers s)[k := Calling (pf_idx s)],
                     started := started s @ [pf_idx s]\<rparr>"
      show ?thesis
        unfolding pf_step_claim_call[OF k Claiming lt fits]
      proof (rule pf_invI)
        show "b \<le> pf_idx ?s'" using inv(1) by simp
        show "pf_idx ?s' \<le> max b e + int (exited (workers ?s'))"
          using lt by simp
        show "started ?s' = [b .. min (pf_idx ?s') e - 1]"
          using inv(1,2) lt by (simp add: upto_snoc)
        show "mset (started ?s') = mset (finished ?s') + mset (calling (workers ?s'))"
          using inv(3) c by simp
        assume "Exited \<in> set (workers ?s')"
        then have "Exited \<in> set (workers s)" by (auto dest: Exited_update)
        with inv(4) lt show "e < pf_idx ?s'" by simp
      qed
    qed
  next
    case (Calling i)
    then have live: "workers s ! k \<noteq> Exited" by simp
    from calling_update[OF k, of "Claiming"] Calling
    have c: "mset (calling (workers s)) = mset (calling ((workers s)[k := Claiming])) + {#i#}"
      by simp
    let ?s' = "s\<lparr>workers := (workers s)[k := Claiming], finished := finished s @ [i]\<rparr>"
    show ?thesis
      unfolding pf_step_complete[OF k Calling]
    proof (rule pf_invI)
      show "b \<le> pf_idx ?s'" using inv(1) by simp
      show "pf_idx ?s' \<le> max b e + int (exited (workers ?s'))"
        using inv(5) exited_stay[OF k live, of Claiming] by simp
      show "started ?s' = [b .. min (pf_idx ?s') e - 1]" using inv(2) by simp
      show "mset (started ?s') = mset (finished ?s') + mset (calling (workers ?s'))"
        using inv(3) c by simp
      assume "Exited \<in> set (workers ?s')"
      then have "Exited \<in> set (workers s)" by (auto dest: Exited_update)
      with inv(4) show "e < pf_idx ?s'" by simp
    qed
  next
    case Exited
    then show ?thesis using k assms by (simp add: pf_step_def)
  qed
qed

lemma workers_length_step: "length (workers (pf_step e k s)) = length (workers s)"
  by (simp add: pf_step_def Let_def split: worker.splits)





lemma weight_update:
  "k < length ws \<Longrightarrow>
   sum_list (map worker_weight (ws[k := w])) + worker_weight (ws ! k)
     = sum_list (map worker_weight ws) + worker_weight w"
proof (induction ws arbitrary: k)
  case Nil
  then show ?case by simp
next
  case (Cons a ws)
  then show ?case by (cases k) (simp_all add: add.assoc add.left_commute)
qed

lemma pf_measure_step:
  assumes k: "k < length (workers s)" and live: "workers s ! k \<noteq> Exited"
    and inv: "pf_inv b e s" and bnd: "pf_bounded b e (length (workers s))"
  shows "pf_measure e (pf_step e k s) < pf_measure e s"
proof (cases "workers s ! k")
  case Claiming
  note fits = pf_claim_in_int[OF inv bnd k live]
  show ?thesis
  proof (cases "e \<le> pf_idx s")
    case True
    with weight_update[OF k, of Exited] Claiming k show ?thesis
      by (simp add: pf_measure_def pf_step_claim_exit[OF k Claiming True fits])
  next
    case False
    then have lt: "pf_idx s < e" by simp
    then have "nat (e - pf_idx s) = Suc (nat (e - (pf_idx s + 1)))" by simp
    with weight_update[OF k, of "Calling (pf_idx s)"] Claiming k show ?thesis
      by (simp add: pf_measure_def pf_step_claim_call[OF k Claiming lt fits])
  qed
next
  case (Calling i)
  with weight_update[OF k, of Claiming] k show ?thesis
    by (simp add: pf_measure_def pf_step_def)
next
  case Exited
  with live show ?thesis by simp
qed

subsubsection \<open>What a completed run has invoked\<close>


lemma pf_live_bounded:
  "pf_live end' sched s \<Longrightarrow> pf_inv begin end' s \<Longrightarrow>
   pf_bounded begin end' (length (workers s)) \<Longrightarrow> length sched \<le> pf_measure end' s"
proof (induction sched arbitrary: s)
  case Nil
  then show ?case by simp
next
  case (Cons cpu sched)
  from Cons.prems(1) have k: "cpu < length (workers s)" and live: "workers s ! cpu \<noteq> Exited"
    and rest: "pf_live end' sched (pf_step end' cpu s)" by simp_all
  have "pf_inv begin end' (pf_step end' cpu s)"
    by (rule pf_inv_step[OF Cons.prems(2,3)])
  moreover have "pf_bounded begin end' (length (workers (pf_step end' cpu s)))"
    using Cons.prems(3) by (simp add: workers_length_step)
  ultimately have "length sched \<le> pf_measure end' (pf_step end' cpu s)"
    using Cons.IH rest by simp
  moreover have "pf_measure end' (pf_step end' cpu s) < pf_measure end' s"
    by (rule pf_measure_step[OF k live Cons.prems(2,3)])
  ultimately show ?case by simp
qed

lemma pf_progress:
  assumes "\<not> pf_returned s"
  shows "\<exists>cpu < length (workers s). workers s ! cpu \<noteq> Exited"
proof -
  from assms obtain w where "w \<in> set (workers s)" "w \<noteq> Exited"
    by (auto simp: pf_returned_def list_all_iff)
  then show ?thesis by (auto simp: in_set_conv_nth)
qed

lemma pf_measure_init:
  "pf_measure end' (pf_init begin num_cpus) = 3 * nat (end' - begin) + 2 * num_cpus"
  by (simp add: pf_measure_def pf_init_def sum_list_replicate)

text \<open>
  Beyond that bound the counter wraps. For the empty range that starts and ends at the
  largest \<^verbatim>\<open>int\<close> and two workers: the first worker takes the counter past the end, to the
  smallest \<^verbatim>\<open>int\<close>, and the second worker then calls the function for that index, which
  is not in the range.
\<close>

lemma par_for_counter_wraps:
  "started (pf_run 2147483647 [0, 1] (pf_init 2147483647 2)) = [- 2147483648]
   \<and> [2147483647 .. 2147483647 - 1] = []"
  by (simp add: pf_init_def pf_step_def wrap_int_def)

text \<open>
  C4. The claim: \<^verbatim>\<open>par_for\<close> invokes the function exactly once for each index of
  \<open>[begin, end)\<close>, with a worker count equal to the hardware concurrency and at least 1.
  The source takes \<^verbatim>\<open>hardware_concurrency()\<close> as it is, and the C++ standard lets that
  function return 0: then no worker is created, the executor returns at once under every
  schedule, and no index has been invoked.
\<close>

theorem par_for_no_workers:
  "pf_returned (pf_run 3 sched (pf_init 0 0))
   \<and> started (pf_run 3 sched (pf_init 0 0)) = []
   \<and> finished (pf_run 3 sched (pf_init 0 0)) = []
   \<and> mset (finished (pf_run 3 sched (pf_init 0 0))) \<noteq> mset [0 .. 3 - 1]"
proof -
  have "pf_run 3 sched (pf_init 0 0) = pf_init 0 0"
    by (induction sched) (simp_all add: pf_step_def pf_init_def)
  then show ?thesis by (simp add: pf_returned_def pf_init_def upto.simps)
qed

subsection \<open>Properties of the chain selection\<close>

lemma sint_bound8: "sint (i :: 8 word) \<le> 127"
  using sint_lt[of i] by simp

lemma sint_succ8:
  assumes "sint (i :: 8 word) < 127"
  shows "sint (i + 1) = sint i + 1"
proof -
  have "sint (i + 1) = signed_take_bit 7 (sint i + 1)"
    using sint_word_ariths(1)[of i 1] by simp
  also have "\<dots> = sint i + 1"
    using assms sint_ge[of i] by (intro signed_take_bit_int_eq_self) simp_all
  finally show ?thesis .
qed

lemma range_loop_Some_bound:
  assumes "range_loop i hi acc = Some y"
  shows "sint hi \<noteq> 127"
  using assms
proof (rule range_loop.raw_induct[where P = "\<lambda>i hi acc y. sint hi \<noteq> 127", rotated 1])
  fix f and i hi :: "8 word" and acc y :: "char list"
  assume ih: "\<And>i hi acc y. f i hi acc = Some y \<Longrightarrow> sint hi \<noteq> 127"
    and body: "(if i \<le>s hi then f (i + 1) hi (acc @ [val_char i]) else Some acc) = Some y"
  show "sint hi \<noteq> 127"
  proof (cases "i \<le>s hi")
    case True
    with body have "f (i + 1) hi (acc @ [val_char i]) = Some y" by simp
    then show ?thesis by (rule ih)
  next
    case False
    then show ?thesis using sint_bound8[of i] by (simp add: word_sle_eq)
  qed
qed

lemma range_loop_never_returns: "range_loop i 127 acc = None"
proof (cases "range_loop i 127 acc")
  case None
  then show ?thesis .
next
  case (Some y)
  then have "sint (127 :: 8 word) \<noteq> 127" by (rule range_loop_Some_bound)
  then show ?thesis by simp
qed

lemma range_loop_returns:
  assumes "sint hi < 127"
  shows "range_loop i hi acc
         = Some (acc @ map (\<lambda>k. val_char (word_of_int k)) [sint i .. sint hi])"
  using assms
proof (induction "nat (sint hi + 1 - sint i)" arbitrary: i acc)
  case 0
  then have "\<not> i \<le>s hi" by (simp add: word_sle_eq)
  moreover from 0 have "[sint i .. sint hi] = []" by simp
  ultimately show ?case by (subst range_loop.simps) simp
next
  case (Suc n)
  then have le: "sint i \<le> sint hi" by simp
  with Suc.prems have s: "sint (i + 1) = sint i + 1" by (simp add: sint_succ8)
  have n: "n = nat (sint hi + 1 - sint (i + 1))" using Suc.hyps(2) s by simp
  have u: "[sint i .. sint hi] = sint i # [sint (i + 1) .. sint hi]"
    using le s by (simp add: upto_rec1)
  show ?case
    using le Suc.hyps(1)[OF n Suc.prems, of "acc @ [val_char i]"]
    by (subst range_loop.simps) (simp add: word_sle_eq u)
qed

lemma expand_first_endpoint_unused:
  "char_val CHR ''-'' \<le>s char_val e \<Longrightarrow>
   expand_chains (c # CHR ''-'' # e # rest) = expand_chains (c' # CHR ''-'' # e # rest)"
  by simp

text \<open>
  The general form of a range: every byte from the dash (45) up to the second endpoint,
  whatever the first endpoint is.
\<close>

lemma expand_range:
  assumes "char_val CHR ''-'' \<le>s char_val e" and "sint (char_val e) < 127"
  shows "expand_chains (c # CHR ''-'' # e # rest)
         = map_option ((@) (map (\<lambda>k. val_char (word_of_int k)) [45 .. sint (char_val e)]))
             (expand_chains rest)"
proof -
  have "sint (char_val CHR ''-'') = 45" by (simp add: char_val_def)
  with range_loop_returns[OF assms(2), of "char_val CHR ''-''" "[]"] assms(1)
  show ?thesis by simp
qed

text \<open>
  C1. The claim: \<open>A-C\<close> expands to \<open>A, B, C\<close> and \<open>C-A\<close> to nothing. The loop of the
  example tests and starts the range at \<^verbatim>\<open>p[1]\<close>, the dash, so a range expands to every
  byte from the dash up to its second endpoint, whatever the first endpoint is. Single
  letters expand to themselves.
\<close>

theorem expand_chains_starts_at_dash:
  "expand_chains ''A-C'' = Some ''-./0123456789:;<=>?@ABC''
   \<and> expand_chains ''C-A'' = Some ''-./0123456789:;<=>?@A''
   \<and> expand_chains ''AC'' = Some ''AC''"
  by code_simp

subsection \<open>Properties of the grid extents\<close>

lemma Min_insert_min:
  fixes a b :: real
  assumes "finite A"
  shows "Min (insert (min a b) A) = Min (insert a (insert b A))"
proof (cases "A = {}")
  case True
  then show ?thesis by simp
next
  case False
  with assms show ?thesis by (simp add: min.assoc)
qed

lemma Max_insert_max:
  fixes a b :: real
  assumes "finite A"
  shows "Max (insert (max a b) A) = Max (insert a (insert b A))"
proof (cases "A = {}")
  case True
  then show ?thesis by simp
next
  case False
  with assms show ?thesis by (simp add: max.assoc)
qed

lemma axis_simps:
  assumes "axis ax"
  shows "ax (vmin a b) = min (ax a) (ax b)" and "ax (vmax a b) = max (ax a) (ax b)"
    and "ax (vsubs a r) = ax a - r" and "ax (vadds a r) = ax a + r"
  using assms by (auto simp: axis_def vmin_def vmax_def vsubs_def vadds_def)

lemma float_vsubs_exact:
  "is_float (vx a - r) \<Longrightarrow> is_float (vy a - r) \<Longrightarrow> is_float (vz a - r) \<Longrightarrow>
   float_vsubs a r = Some (vsubs a r)"
  by (simp add: float_vsubs_def vsubs_def float_exact)

lemma float_vadds_exact:
  "is_float (vx a + r) \<Longrightarrow> is_float (vy a + r) \<Longrightarrow> is_float (vz a + r) \<Longrightarrow>
   float_vadds a r = Some (vadds a r)"
  by (simp add: float_vadds_def vadds_def float_exact)

text \<open>
  When no difference and no sum of the loop rounds, the loop returns on every axis the
  least lower end and the greatest upper end, among them those of its start.
\<close>

lemma bbox_loop_exact:
  assumes "list_all (\<lambda>(p, r). is_float (vx p - r) \<and> is_float (vy p - r) \<and> is_float (vz p - r)
                          \<and> is_float (vx p + r) \<and> is_float (vy p + r) \<and> is_float (vz p + r)) xs"
  shows "\<exists>mn' mx'. bbox_loop xs (mn, mx) = Some (mn', mx')
           \<and> (\<forall>ax. axis ax \<longrightarrow>
                  ax mn' = Min (insert (ax mn) (set (map (\<lambda>(p, r). ax p - r) xs)))
                \<and> ax mx' = Max (insert (ax mx) (set (map (\<lambda>(p, r). ax p + r) xs))))"
  using assms
proof (induction xs arbitrary: mn mx)
  case Nil
  then show ?case by simp
next
  case (Cons a xs)
  obtain p r where a: "a = (p, r)" by (cases a)
  from Cons.prems a have lo: "float_vsubs p r = Some (vsubs p r)"
    and hi: "float_vadds p r = Some (vadds p r)"
    by (simp_all add: float_vsubs_exact float_vadds_exact)
  from Cons.prems have rest: "list_all (\<lambda>(p, r). is_float (vx p - r) \<and> is_float (vy p - r)
      \<and> is_float (vz p - r) \<and> is_float (vx p + r) \<and> is_float (vy p + r) \<and> is_float (vz p + r)) xs"
    by simp
  from Cons.IH[OF rest, of "vmin mn (vsubs p r)" "vmax mx (vadds p r)"]
  obtain mn' mx' where r: "bbox_loop xs (vmin mn (vsubs p r), vmax mx (vadds p r)) = Some (mn', mx')"
    and m: "\<And>ax. axis ax \<Longrightarrow>
        ax mn' = Min (insert (ax (vmin mn (vsubs p r))) (set (map (\<lambda>(p, r). ax p - r) xs)))
      \<and> ax mx' = Max (insert (ax (vmax mx (vadds p r))) (set (map (\<lambda>(p, r). ax p + r) xs)))"
    by blast
  have "bbox_loop (a # xs) (mn, mx) = Some (mn', mx')"
    by (simp add: a lo hi r)
  moreover have "ax mn' = Min (insert (ax mn) (set (map (\<lambda>(p, r). ax p - r) (a # xs))))
               \<and> ax mx' = Max (insert (ax mx) (set (map (\<lambda>(p, r). ax p + r) (a # xs))))"
    if "axis ax" for ax
    using m[OF that] by (simp add: a axis_simps[OF that] Min_insert_min Max_insert_max)
  ultimately show ?case by blast
qed

lemma max_radius_foldl: "foldl max (a :: real) rs = Max (insert a (set rs))"
proof (induction rs arbitrary: a)
  case Nil
  then show ?case by simp
next
  case (Cons r rs)
  have "foldl max a (r # rs) = Max (insert (max a r) (set rs))" by (simp add: Cons.IH)
  also have "\<dots> = Max (insert a (insert r (set rs)))" by (rule Max_insert_max) simp
  finally show ?case by simp
qed

lemma max_radius_nonneg: "0 \<le> max_radius_of rs"
  by (simp add: max_radius_of_def max_radius_foldl)

lemma max_radius_Max:
  assumes "rs \<noteq> []" and "\<forall>r\<in>set rs. 0 \<le> r"
  shows "max_radius_of rs = Max (set rs)"
proof -
  from assms obtain r where "r \<in> set rs" "0 \<le> r" by (cases rs) auto
  then have "0 \<le> Max (set rs)" by (meson List.finite_set Max_ge order_trans)
  with assms(1) show ?thesis
    by (simp add: max_radius_of_def max_radius_foldl max_def)
qed

lemma vec3_eqI: "vx a = vx b \<Longrightarrow> vy a = vy b \<Longrightarrow> vz a = vz b \<Longrightarrow> a = b"
  by (cases a; cases b) simp

lemma axis_cases [simp]: "axis vx" "axis vy" "axis vz"
  by (simp_all add: axis_def)

lemma first_atom_min:
  fixes ax :: "vec3 \<Rightarrow> real"
  assumes "length rs = length ps" and "ps \<noteq> []" and "\<forall>r\<in>set rs. 0 \<le> r"
  shows "Min (insert (ax (hd ps)) (set (map (\<lambda>(p, r). ax p - r) (zip ps rs))))
         = Min (set (map (\<lambda>(p, r). ax p - r) (zip ps rs)))"
proof -
  from assms(1,2) obtain p0 ps' r0 rs' where ps: "ps = p0 # ps'" and rs: "rs = r0 # rs'"
    by (cases ps; cases rs) auto
  from assms(3) rs have r0: "0 \<le> r0" by simp
  let ?S = "set (map (\<lambda>(p, r). ax p - r) (zip ps rs))"
  have mem: "ax p0 - r0 \<in> ?S" by (simp add: ps rs)
  then have "Min ?S \<le> ax p0 - r0" by (intro Min_le) simp_all
  with r0 have le: "Min ?S \<le> ax p0" by simp
  have "Min (insert (ax p0) ?S) = Min ?S"
    using mem le by (subst Min_insert) (auto simp: min_def)
  then show ?thesis by (simp only: ps list.sel)
qed

lemma first_atom_max:
  fixes ax :: "vec3 \<Rightarrow> real"
  assumes "length rs = length ps" and "ps \<noteq> []" and "\<forall>r\<in>set rs. 0 \<le> r"
  shows "Max (insert (ax (hd ps)) (set (map (\<lambda>(p, r). ax p + r) (zip ps rs))))
         = Max (set (map (\<lambda>(p, r). ax p + r) (zip ps rs)))"
proof -
  from assms(1,2) obtain p0 ps' r0 rs' where ps: "ps = p0 # ps'" and rs: "rs = r0 # rs'"
    by (cases ps; cases rs) auto
  from assms(3) rs have r0: "0 \<le> r0" by simp
  let ?S = "set (map (\<lambda>(p, r). ax p + r) (zip ps rs))"
  have mem: "ax p0 + r0 \<in> ?S" by (simp add: ps rs)
  then have "ax p0 + r0 \<le> Max ?S" by (intro Max_ge) simp_all
  with r0 have le: "ax p0 \<le> Max ?S" by simp
  have "Max (insert (ax p0) ?S) = Max ?S"
    using mem le by (subst Max_insert) (auto simp: max_def)
  then show ?thesis by (simp only: ps list.sel)
qed

text \<open>The box of the specification is never inverted.\<close>

lemma min_le_max_atoms:
  fixes ax :: "vec3 \<Rightarrow> real"
  assumes "length rs = length ps" and "ps \<noteq> []" and "\<forall>r\<in>set rs. 0 \<le> r"
  shows "Min (set (map (\<lambda>(p, r). ax p - r) (zip ps rs)))
         \<le> Max (set (map (\<lambda>(p, r). ax p + r) (zip ps rs)))"
proof -
  from assms(1,2) obtain p0 ps' r0 rs' where ps: "ps = p0 # ps'" and rs: "rs = r0 # rs'"
    by (cases ps; cases rs) auto
  from assms(3) rs have r0: "0 \<le> r0" by simp
  have "Min (set (map (\<lambda>(p, r). ax p - r) (zip ps rs))) \<le> ax p0 - r0"
    by (intro Min_le) (simp_all add: ps rs)
  also have "\<dots> \<le> ax p0 + r0" using r0 by simp
  also have "\<dots> \<le> Max (set (map (\<lambda>(p, r). ax p + r) (zip ps rs)))"
    by (intro Max_ge) (simp_all add: ps rs)
  finally show ?thesis .
qed

lemma elementwise_ordered:
  assumes "length rs = length ps" and "ps \<noteq> []" and "\<forall>r\<in>set rs. 0 \<le> r" and "axis ax"
  shows "ax (elementwise_min ps rs) \<le> ax (elementwise_max ps rs)"
  using assms(4) min_le_max_atoms[OF assms(1-3), of vx] min_le_max_atoms[OF assms(1-3), of vy]
    min_le_max_atoms[OF assms(1-3), of vz]
  by (auto simp: axis_def elementwise_min_def elementwise_max_def)

text \<open>One dimension, when its three operations and the conversion are exact.\<close>

lemma grid_dim_exact:
  assumes "0 < spacing" and "lo \<le> hi" and "exact_dim lo hi spacing"
  shows "grid_dim lo hi (1 / spacing) = Some (spec_dim lo hi spacing)"
proof -
  from assms(3) have e: "is_float (hi - lo)" "is_float ((hi - lo) * (1 / spacing))"
    "is_float ((hi - lo) * (1 / spacing) + 1)" "(hi - lo) / spacing + 1 < 2 ^ 31"
    by (simp_all add: exact_dim_def)
  from assms(1,2) have nn: "0 \<le> (hi - lo) / spacing" by simp
  have 1: "float_sub hi lo = Some (hi - lo)" by (rule float_exact(2)[OF e(1)])
  have 2: "float_mul (hi - lo) (1 / spacing) = Some ((hi - lo) * (1 / spacing))"
    by (rule float_exact(3)[OF e(2)])
  have 3: "float_add ((hi - lo) * (1 / spacing)) 1 = Some ((hi - lo) * (1 / spacing) + 1)"
    by (rule float_exact(1)[OF e(3)])
  have "to_int ((hi - lo) * (1 / spacing) + 1) = Some \<lfloor>(hi - lo) * (1 / spacing) + 1\<rfloor>"
    using e(4) nn by (intro to_int_floor) simp_all
  then have 4: "to_int ((hi - lo) * (1 / spacing) + 1) = Some (spec_dim lo hi spacing)"
    by (simp add: spec_dim_def)
  show ?thesis
    unfolding grid_dim_def by (simp only: 1 2 3 4 Option.bind.bind_lunit)
qed

text \<open>
  C8 (as amended). For a non-empty atom set, as many radii as positions and none negative,
  a positive spacing, and a computation none of whose single-precision operations rounds
  and whose dimensions fit \<^verbatim>\<open>int\<close>, the extents the example computes are those of the
  specification: each corner is the elementwise minimum (maximum) of \<open>position - radius\<close>
  (\<open>position + radius\<close>) moved outwards by \<open>water_radius + max_radius\<close>, \<open>max_radius\<close> being
  the largest radius, and each dimension is \<open>floor((max_corner - min_corner) / spacing) + 1\<close>.
\<close>

theorem grid_extents_exact:
  assumes "ps \<noteq> []" and "length rs = length ps" and "\<forall>r\<in>set rs. 0 \<le> r"
    and "0 < spacing" and "exact_extents ps rs spacing"
  shows "grid_extents ps rs spacing = Inr (spec_grid ps rs spacing)"
proof -
  from assms(1,2) have rs: "rs \<noteq> []" by auto
  from assms(5) have atoms: "list_all (\<lambda>(p, r). is_float (vx p - r) \<and> is_float (vy p - r)
      \<and> is_float (vz p - r) \<and> is_float (vx p + r) \<and> is_float (vy p + r) \<and> is_float (vz p + r))
      (zip ps rs)"
    and pad: "is_float (water_radius + Max (set rs))"
    and recip: "is_float (1 / spacing)"
    and dims: "exact_dim (vx (spec_min_corner ps rs)) (vx (spec_max_corner ps rs)) spacing"
      "exact_dim (vy (spec_min_corner ps rs)) (vy (spec_max_corner ps rs)) spacing"
      "exact_dim (vz (spec_min_corner ps rs)) (vz (spec_max_corner ps rs)) spacing"
    unfolding exact_extents_def by blast+
  from bbox_loop_exact[OF atoms, of "hd ps" "hd ps"] obtain mn mx where
    bb: "bbox_loop (zip ps rs) (hd ps, hd ps) = Some (mn, mx)"
    and m: "\<And>ax. axis ax \<Longrightarrow>
        ax mn = Min (insert (ax (hd ps)) (set (map (\<lambda>(p, r). ax p - r) (zip ps rs))))
      \<and> ax mx = Max (insert (ax (hd ps)) (set (map (\<lambda>(p, r). ax p + r) (zip ps rs))))"
    by blast
  have lo: "ax mn = Min (set (map (\<lambda>(p, r). ax p - r) (zip ps rs)))"
    and hi: "ax mx = Max (set (map (\<lambda>(p, r). ax p + r) (zip ps rs)))" if "axis ax" for ax
    using m[OF that] first_atom_min[OF assms(2,1,3), of ax] first_atom_max[OF assms(2,1,3), of ax]
    by simp_all
  have mn: "mn = elementwise_min ps rs"
    by (rule vec3_eqI) (simp_all only: lo axis_cases elementwise_min_def vec3.sel)
  have mx: "mx = elementwise_max ps rs"
    by (rule vec3_eqI) (simp_all only: hi axis_cases elementwise_max_def vec3.sel)
  have mr: "max_radius_of rs = Max (set rs)" by (rule max_radius_Max[OF rs assms(3)])
  have padding: "0 \<le> water_radius + Max (set rs)"
    using max_radius_nonneg[of rs] mr by (simp add: water_radius_def)
  have ord: "ax (spec_min_corner ps rs) \<le> ax (spec_max_corner ps rs)" if "axis ax" for ax
    using elementwise_ordered[OF assms(2,1,3) that] padding
    by (simp add: spec_min_corner_def spec_max_corner_def axis_simps[OF that])
  have fl: "is_float (ax (spec_min_corner ps rs))" "is_float (ax (spec_max_corner ps rs))"
    if "axis ax" for ax
    using that dims by (auto simp: axis_def exact_dim_def)
  have 1: "float_add water_radius (max_radius_of rs) = Some (water_radius + Max (set rs))"
    unfolding mr by (rule float_exact(1)[OF pad])
  have 2: "float_div 1 spacing = Some (1 / spacing)"
    using assms(4) by (intro float_exact(4)[OF recip]) simp
  have 3: "float_vsubs (elementwise_min ps rs) (water_radius + Max (set rs))
           = Some (spec_min_corner ps rs)"
    unfolding spec_min_corner_def
    using fl(1)[of vx] fl(1)[of vy] fl(1)[of vz]
    by (intro float_vsubs_exact) (simp_all add: spec_min_corner_def vsubs_def)
  have 4: "float_vadds (elementwise_max ps rs) (water_radius + Max (set rs))
           = Some (spec_max_corner ps rs)"
    unfolding spec_max_corner_def
    using fl(2)[of vx] fl(2)[of vy] fl(2)[of vz]
    by (intro float_vadds_exact) (simp_all add: spec_max_corner_def vadds_def)
  note 5 = grid_dim_exact[OF assms(4) ord[of vx] dims(1), simplified]
    grid_dim_exact[OF assms(4) ord[of vy] dims(2), simplified]
    grid_dim_exact[OF assms(4) ord[of vz] dims(3), simplified]
  have "extents ps rs spacing = Some (spec_grid ps rs spacing)"
    unfolding extents_def bb mn mx
    by (simp only: 1 2 3 4 5 Option.bind.bind_lunit case_prod_conv spec_grid_def)
  then show ?thesis using assms(1,2) by (simp add: grid_extents_def)
qed

theorem grid_extents_exact_witness:
  "grid_extents [Vec3 0 0 0, Vec3 3 0 0] [1, 1] (1 / 2)
   = Inr \<lparr>gmin = Vec3 (- 4) (- 4) (- 4), gmax = Vec3 7 4 4, xdim = 23, ydim = 17, zdim = 17\<rparr>"
proof -
  have s: "spec_grid [Vec3 0 0 0, Vec3 3 0 0] [1, 1] (1 / 2)
        = \<lparr>gmin = Vec3 (- 4) (- 4) (- 4), gmax = Vec3 7 4 4, xdim = 23, ydim = 17, zdim = 17\<rparr>"
    by (simp add: spec_grid_def spec_min_corner_def spec_max_corner_def elementwise_min_def
        elementwise_max_def spec_dim_def water_radius_def vsubs_def vadds_def)
  have e: "exact_extents [Vec3 0 0 0, Vec3 3 0 0] [1, 1] (1 / 2)"
    by (simp add: exact_extents_def exact_dim_def spec_min_corner_def spec_max_corner_def
        elementwise_min_def elementwise_max_def water_radius_def vsubs_def vadds_def)
  from grid_extents_exact[of "[Vec3 0 0 0, Vec3 3 0 0]" "[1, 1]" "1 / 2", OF _ _ _ _ e]
  show ?thesis by (simp add: s)
qed

text \<open>
  The claim as stated gives the corners and the dimensions of exact arithmetic. Take one
  atom at \<open>(0.3, 0, 0)\<close> of radius \<open>1.2\<close> and the spacing \<open>0.2\<close>, each the nearest float.
  The lower corner on \<open>x\<close> is rounded up and the upper corner down, their difference is
  rounded down again, and the reciprocal of the spacing is rounded to 5: the example
  converts \<open>44.999996\<close> and has 44 cells on \<open>x\<close>, where the corners of the specification
  are \<open>8.8000002\<close> apart and its formula gives 45.
\<close>

theorem grid_extents_rounds:
  "to_float (3 / 10) = Some (5033165 / 16777216)
   \<and> to_float (12 / 10) = Some (5033165 / 4194304)
   \<and> to_float (2 / 10) = Some (13421773 / 67108864)
   \<and> grid_extents [Vec3 (5033165 / 16777216) 0 0] [5033165 / 4194304] (13421773 / 67108864)
       = Inr \<lparr>gmin = Vec3 (- (8598323 / 2097152)) (- (9227469 / 2097152)) (- (9227469 / 2097152)),
          gmax = Vec3 (4928307 / 1048576) (9227469 / 2097152) (9227469 / 2097152),
          xdim = 44, ydim = 45, zdim = 45\<rparr>
   \<and> spec_grid [Vec3 (5033165 / 16777216) 0 0] [5033165 / 4194304] (13421773 / 67108864)
       = \<lparr>gmin = Vec3 (- (68786587 / 16777216)) (- (9227469 / 2097152)) (- (9227469 / 2097152)),
          gmax = Vec3 (78852917 / 16777216) (9227469 / 2097152) (9227469 / 2097152),
          xdim = 45, ydim = 45, zdim = 45\<rparr>
   \<and> grid_extents [Vec3 (5033165 / 16777216) 0 0] [5033165 / 4194304] (13421773 / 67108864)
       \<noteq> Inr (spec_grid [Vec3 (5033165 / 16777216) 0 0] [5033165 / 4194304] (13421773 / 67108864))"
proof -
  have a: "to_float (3 / 10) = Some (5033165 / 16777216)"
    by (rule to_float_at[where j = 124 and m = 10066330]) (simp_all add: nearest_even_def float_max_def)
  have r: "to_float (12 / 10) = Some (5033165 / 4194304)"
    by (rule to_float_at[where j = 126 and m = 10066330]) (simp_all add: nearest_even_def float_max_def)
  have g: "to_float (2 / 10) = Some (13421773 / 67108864)"
    by (rule to_float_at[where j = 123 and m = 13421773]) (simp_all add: nearest_even_def float_max_def)
  have s1: "float_sub (5033165 / 16777216) (5033165 / 4194304) = Some (- (15099495 / 16777216))"
    unfolding float_sub_def
    by (rule to_float_at[where j = 125 and m = "- 15099495"])
       (simp_all add: nearest_even_def float_max_def)
  have s2: "float_sub 0 (5033165 / 4194304) = Some (- (5033165 / 4194304))"
    unfolding float_sub_def
    by (rule to_float_at[where j = 126 and m = "- 10066330"])
       (simp_all add: nearest_even_def float_max_def)
  have s3: "float_add (5033165 / 16777216) (5033165 / 4194304) = Some (3 / 2)"
    unfolding float_add_def
    by (rule to_float_at[where j = 126 and m = 12582912])
       (simp_all add: nearest_even_def float_max_def)
  have s4: "float_add 0 (5033165 / 4194304) = Some (5033165 / 4194304)"
    unfolding float_add_def
    by (rule to_float_at[where j = 126 and m = 10066330])
       (simp_all add: nearest_even_def float_max_def)
  have s5: "float_add 2 (5033165 / 4194304) = Some (13421773 / 4194304)"
    unfolding float_add_def
    by (rule to_float_at[where j = 127 and m = 13421773])
       (simp_all add: nearest_even_def float_max_def)
  have "to_float (1 / (13421773 / 67108864)) = Some 5"
    by (rule to_float_at[where j = 128 and m = 10485760])
       (simp_all add: nearest_even_def float_max_def)
  then have s6: "float_div 1 (13421773 / 67108864) = Some 5"
    by (simp add: float_div_def)
  have s7: "float_sub (- (15099495 / 16777216)) (13421773 / 4194304) = Some (- (8598323 / 2097152))"
    unfolding float_sub_def
    by (rule to_float_at[where j = 128 and m = "- 8598323"])
       (simp_all add: nearest_even_def float_max_def)
  have s8: "float_sub (- (5033165 / 4194304)) (13421773 / 4194304) = Some (- (9227469 / 2097152))"
    unfolding float_sub_def
    by (rule to_float_at[where j = 128 and m = "- 9227469"])
       (simp_all add: nearest_even_def float_max_def)
  have s9: "float_add (3 / 2) (13421773 / 4194304) = Some (4928307 / 1048576)"
    unfolding float_add_def
    by (rule to_float_at[where j = 128 and m = 9856614])
       (simp_all add: nearest_even_def float_max_def)
  have s10: "float_add (5033165 / 4194304) (13421773 / 4194304) = Some (9227469 / 2097152)"
    unfolding float_add_def
    by (rule to_float_at[where j = 128 and m = 9227469])
       (simp_all add: nearest_even_def float_max_def)
  have s11: "float_sub (4928307 / 1048576) (- (8598323 / 2097152)) = Some (2306867 / 262144)"
    unfolding float_sub_def
    by (rule to_float_at[where j = 129 and m = 9227468])
       (simp_all add: nearest_even_def float_max_def)
  have s12: "float_mul (2306867 / 262144) 5 = Some (11534335 / 262144)"
    unfolding float_mul_def
    by (rule to_float_at[where j = 131 and m = 11534335])
       (simp_all add: nearest_even_def float_max_def)
  have s13: "float_add (11534335 / 262144) 1 = Some (11796479 / 262144)"
    unfolding float_add_def
    by (rule to_float_at[where j = 131 and m = 11796479])
       (simp_all add: nearest_even_def float_max_def)
  have s14: "float_sub (9227469 / 2097152) (- (9227469 / 2097152)) = Some (9227469 / 1048576)"
    unfolding float_sub_def
    by (rule to_float_at[where j = 129 and m = 9227469])
       (simp_all add: nearest_even_def float_max_def)
  have s15: "float_mul (9227469 / 1048576) 5 = Some 44"
    unfolding float_mul_def
    by (rule to_float_at[where j = 131 and m = 11534336])
       (simp_all add: nearest_even_def float_max_def)
  have s16: "float_add 44 1 = Some 45"
    unfolding float_add_def
    by (rule to_float_at[where j = 131 and m = 11796480])
       (simp_all add: nearest_even_def float_max_def)
  have code: "grid_extents [Vec3 (5033165 / 16777216) 0 0] [5033165 / 4194304] (13421773 / 67108864)
      = Inr \<lparr>gmin = Vec3 (- (8598323 / 2097152)) (- (9227469 / 2097152)) (- (9227469 / 2097152)),
          gmax = Vec3 (4928307 / 1048576) (9227469 / 2097152) (9227469 / 2097152),
          xdim = 44, ydim = 45, zdim = 45\<rparr>"
    by (simp add: grid_extents_def extents_def float_vsubs_def float_vadds_def grid_dim_def
        vmin_def vmax_def max_radius_of_def water_radius_def to_int_def in_int_def
        s1 s2 s3 s4 s5 s6 s7 s8 s9 s10 s11 s12 s13 s14 s15 s16)
  have spec: "spec_grid [Vec3 (5033165 / 16777216) 0 0] [5033165 / 4194304] (13421773 / 67108864)
      = \<lparr>gmin = Vec3 (- (68786587 / 16777216)) (- (9227469 / 2097152)) (- (9227469 / 2097152)),
          gmax = Vec3 (78852917 / 16777216) (9227469 / 2097152) (9227469 / 2097152),
          xdim = 45, ydim = 45, zdim = 45\<rparr>"
    by (simp add: spec_grid_def spec_min_corner_def spec_max_corner_def elementwise_min_def
        elementwise_max_def spec_dim_def water_radius_def vsubs_def vadds_def)
  have "grid_extents [Vec3 (5033165 / 16777216) 0 0] [5033165 / 4194304] (13421773 / 67108864)
        \<noteq> Inr (spec_grid [Vec3 (5033165 / 16777216) 0 0] [5033165 / 4194304] (13421773 / 67108864))"
    unfolding code spec by simp
  with a r g code spec show ?thesis by blast
qed

text \<open>
  The hypothesis on the radii is needed: the running minimum starts at \<^verbatim>\<open>pos[0]\<close> and the
  largest radius at 0, so for one atom of radius \<open>-1\<close> at the origin the example pads the
  box \<open>[0, 0]\<close> by 2, where the formula of the specification gives the box \<open>[1, -1]\<close>
  padded by 1.
\<close>

lemma grid_extents_negative_radius:
  "grid_extents [Vec3 0 0 0] [- 1] 1
     = Inr \<lparr>gmin = Vec3 (- 2) (- 2) (- 2), gmax = Vec3 2 2 2, xdim = 5, ydim = 5, zdim = 5\<rparr>
   \<and> spec_grid [Vec3 0 0 0] [- 1] 1
     = \<lparr>gmin = Vec3 0 0 0, gmax = Vec3 0 0 0, xdim = 1, ydim = 1, zdim = 1\<rparr>"
  by (simp add: grid_extents_def extents_def float_vsubs_def float_vadds_def grid_dim_def
      float_exact spec_grid_def spec_min_corner_def spec_max_corner_def
      elementwise_min_def elementwise_max_def spec_dim_def max_radius_of_def to_int_def in_int_def
      water_radius_def vmin_def vmax_def vsubs_def vadds_def)

text \<open>
  So is the hypothesis on the dimensions: for an atom of radius 1 and the spacing \<open>10\<^sup>-\<^sup>9\<close>
  the sum to convert is \<open>8 * 10\<^sup>9\<close>, which no \<^verbatim>\<open>int\<close> holds. Without an atom, and with a
  spacing of zero, the computation is undefined as well.
\<close>

lemma grid_extents_dimension_overflow:
  "to_float (1 / 10 ^ 9) = Some (9007199 / 9007199254740992)
   \<and> grid_extents [Vec3 0 0 0] [1] (9007199 / 9007199254740992) = Inl Undefined_behaviour"
proof -
  have g: "to_float (1 / 10 ^ 9) = Some (9007199 / 9007199254740992)"
    by (rule to_float_at[where j = 96 and m = 9007199]) (simp_all add: nearest_even_def float_max_def)
  have s1: "float_sub 0 1 = Some (- 1)"
    unfolding float_sub_def
    by (rule to_float_at[where j = 126 and m = "- 8388608"])
       (simp_all add: nearest_even_def float_max_def)
  have s2: "float_add 0 1 = Some 1"
    unfolding float_add_def
    by (rule to_float_at[where j = 126 and m = 8388608])
       (simp_all add: nearest_even_def float_max_def)
  have s3: "float_add 2 1 = Some 3"
    unfolding float_add_def
    by (rule to_float_at[where j = 127 and m = 12582912])
       (simp_all add: nearest_even_def float_max_def)
  have "to_float (1 / (9007199 / 9007199254740992)) = Some 1000000000"
    by (rule to_float_at[where j = 155 and m = 15625000])
       (simp_all add: nearest_even_def float_max_def)
  then have s4: "float_div 1 (9007199 / 9007199254740992) = Some 1000000000"
    by (simp add: float_div_def)
  have s5: "float_sub (- 1) 3 = Some (- 4)"
    unfolding float_sub_def
    by (rule to_float_at[where j = 128 and m = "- 8388608"])
       (simp_all add: nearest_even_def float_max_def)
  have s6: "float_add 1 3 = Some 4"
    unfolding float_add_def
    by (rule to_float_at[where j = 128 and m = 8388608])
       (simp_all add: nearest_even_def float_max_def)
  have s7: "float_sub 4 (- 4) = Some 8"
    unfolding float_sub_def
    by (rule to_float_at[where j = 129 and m = 8388608])
       (simp_all add: nearest_even_def float_max_def)
  have s8: "float_mul 8 1000000000 = Some 8000000000"
    unfolding float_mul_def
    by (rule to_float_at[where j = 158 and m = 15625000])
       (simp_all add: nearest_even_def float_max_def)
  have s9: "float_add 8000000000 1 = Some 8000000000"
    unfolding float_add_def
    by (rule to_float_at[where j = 158 and m = 15625000])
       (simp_all add: nearest_even_def float_max_def)
  have "grid_extents [Vec3 0 0 0] [1] (9007199 / 9007199254740992) = Inl Undefined_behaviour"
    by (simp add: grid_extents_def extents_def float_vsubs_def float_vadds_def grid_dim_def
        vmin_def vmax_def max_radius_of_def water_radius_def to_int_def in_int_def
        s1 s2 s3 s4 s5 s6 s7 s8 s9)
  with g show ?thesis by blast
qed

lemma grid_extents_no_atom: "grid_extents [] rs spacing = Inl Undefined_behaviour"
  by (simp add: grid_extents_def)

lemma grid_extents_zero_spacing: "grid_extents ps rs 0 = Inl Undefined_behaviour"
  by (simp add: grid_extents_def extents_def float_div_def split: Option.bind_split prod.split)

subsection \<open>Properties of the fields\<close>

subsubsection \<open>The index and the size within \<^verbatim>\<open>int\<close>\<close>











text \<open>
  Outside those bounds the size and the index are not defined: a grid of \<open>1291\<^sup>3\<close> vertices
  has more than \<^verbatim>\<open>int\<close> holds, and a grid with one negative number of vertices along an
  axis has a negative size, which no vector can have.
\<close>

lemma field_size_overflow:
  "field_size \<lparr>gmin = Vec3 0 0 0, gmax = Vec3 1 1 1, xdim = 1290, ydim = 1290, zdim = 1290\<rparr>
   = Inl Undefined_behaviour
   \<and> idx \<lparr>gmin = Vec3 0 0 0, gmax = Vec3 1 1 1, xdim = 1290, ydim = 1290, zdim = 1290\<rparr>
       1290 1290 1290 = None"
  by (simp add: field_size_def idx_def int_add_def int_mul_def in_int_def)

lemma field_size_negative:
  "field_size \<lparr>gmin = Vec3 0 0 0, gmax = Vec3 1 1 1, xdim = - 7, ydim = - 7, zdim = - 7\<rparr>
   = Inl Length_error"
  by (simp add: field_size_def int_add_def int_mul_def in_int_def)

text \<open>A slot outside the vector is neither written nor read.\<close>

lemma store_outside: "store [0, 0] (Some 2) v = None" "store [0, 0] (Some (- 1)) v = None"
  "load [0, 0] (Some 2) = None" "store [0, 0] None v = None"
  by (simp_all add: store_def load_def)

subsubsection \<open>Loops that stay defined\<close>





subsubsection \<open>What a fill stores\<close>









subsubsection \<open>The accessible field\<close>








subsection \<open>Properties of the band index\<close>

lemma bound_loop_spec:
  "(\<And>i j. i \<le> j \<Longrightarrow> j < length xs \<Longrightarrow> P (xs ! j) \<Longrightarrow> P (xs ! i)) \<Longrightarrow>
   first + len \<le> length xs \<Longrightarrow> (\<And>i. i < first \<Longrightarrow> P (xs ! i)) \<Longrightarrow>
   (\<And>i. first + len \<le> i \<Longrightarrow> i < length xs \<Longrightarrow> \<not> P (xs ! i)) \<Longrightarrow>
   bound_loop P xs first len \<le> length xs
   \<and> (\<forall>i < length xs. P (xs ! i) \<longleftrightarrow> i < bound_loop P xs first len)"
proof (induction P xs first len rule: bound_loop.induct)
  case (1 go_right xs first len)
  note mono = "1.prems"(1)
  show ?case
  proof (cases "len = 0")
    case True
    then have r: "bound_loop go_right xs first len = first"
      by (subst bound_loop.simps) simp
    have "go_right (xs ! i) \<longleftrightarrow> i < first" if "i < length xs" for i
      using "1.prems"(3)[of i] "1.prems"(4)[of i] that True by (cases "i < first") auto
    with "1.prems"(2) True show ?thesis by (simp add: r)
  next
    case False
    define half where "half = len div 2"
    define mid where "mid = first + half"
    from False have hl: "half < len" by (simp add: half_def)
    with "1.prems"(2) have midlt: "mid < length xs" by (simp add: mid_def)
    show ?thesis
    proof (cases "go_right (xs ! mid)")
      case True
      have a: "mid + 1 + (len - half - 1) \<le> length xs"
        using hl "1.prems"(2) by (simp add: mid_def)
      have b: "go_right (xs ! i)" if "i < mid + 1" for i
        using mono[of i mid] that midlt True by simp
      have c: "\<not> go_right (xs ! i)" if "mid + 1 + (len - half - 1) \<le> i" "i < length xs" for i
        using "1.prems"(4)[of i] that hl by (simp add: mid_def)
      have "bound_loop go_right xs (mid + 1) (len - half - 1) \<le> length xs
            \<and> (\<forall>i < length xs. go_right (xs ! i)
                  \<longleftrightarrow> i < bound_loop go_right xs (mid + 1) (len - half - 1))"
        using "1.IH"(1)[OF False half_def mid_def True mono a b c] by simp
      moreover have "bound_loop go_right xs first len
                     = bound_loop go_right xs (mid + 1) (len - half - 1)"
        using False True by (subst bound_loop.simps) (simp add: Let_def half_def mid_def)
      ultimately show ?thesis by simp
    next
      case F: False
      have a: "first + half \<le> length xs" using midlt by (simp add: mid_def)
      have c: "\<not> go_right (xs ! i)" if "first + half \<le> i" "i < length xs" for i
        using mono[of mid i] that F by (auto simp: mid_def)
      have "bound_loop go_right xs first half \<le> length xs
            \<and> (\<forall>i < length xs. go_right (xs ! i) \<longleftrightarrow> i < bound_loop go_right xs first half)"
        using "1.IH"(2)[OF False half_def mid_def F mono a "1.prems"(3) c] by simp
      moreover have "bound_loop go_right xs first len = bound_loop go_right xs first half"
        using False F by (subst bound_loop.simps) (simp add: Let_def half_def mid_def)
      ultimately show ?thesis by simp
    qed
  qed
qed

lemma filter_interval:
  "(\<And>i. i < length xs \<Longrightarrow> Q (xs ! i) \<longleftrightarrow> p \<le> i \<and> i < q) \<Longrightarrow> p \<le> q \<Longrightarrow>
   filter Q xs = take (q - p) (drop p xs)"
proof (induction xs arbitrary: p q)
  case Nil
  then show ?case by simp
next
  case (Cons x xs)
  show ?case
  proof (cases p)
    case 0
    show ?thesis
    proof (cases q)
      case q0: 0
      have "\<not> Q e" if "e \<in> set (x # xs)" for e
      proof -
        from that obtain i where "i < length (x # xs)" "e = (x # xs) ! i"
          by (metis in_set_conv_nth)
        with Cons.prems(1)[of i] q0 show ?thesis by simp
      qed
      then have "filter Q (x # xs) = []" by (simp add: filter_empty_conv)
      with 0 q0 show ?thesis by simp
    next
      case (Suc q')
      have "Q x" using Cons.prems(1)[of 0] 0 Suc by simp
      moreover have "filter Q xs = take (q' - 0) (drop 0 xs)"
      proof (rule Cons.IH)
        fix i assume "i < length xs"
        then show "Q (xs ! i) \<longleftrightarrow> 0 \<le> i \<and> i < q'"
          using Cons.prems(1)[of "Suc i"] 0 Suc by simp
      qed simp
      ultimately show ?thesis using 0 Suc by simp
    qed
  next
    case (Suc p')
    with Cons.prems(2) obtain q' where q: "q = Suc q'" by (cases q) auto
    have "\<not> Q x" using Cons.prems(1)[of 0] Suc by simp
    moreover have "filter Q xs = take (q' - p') (drop p' xs)"
    proof (rule Cons.IH)
      fix i assume "i < length xs"
      then show "Q (xs ! i) \<longleftrightarrow> p' \<le> i \<and> i < q'"
        using Cons.prems(1)[of "Suc i"] Suc q by simp
    next
      show "p' \<le> q'" using Cons.prems(2) Suc q by simp
    qed
    ultimately show ?thesis using Suc q by simp
  qed
qed

lemma sorted_vz_nth:
  "sorted (map vz zs) \<Longrightarrow> i \<le> j \<Longrightarrow> j < length zs \<Longrightarrow> vz (zs ! i) \<le> vz (zs ! j)"
  using sorted_nth_mono[of "map vz zs" i j] by simp

lemma lower_bound_spec:
  assumes "sorted (map vz zs)"
  shows "lower_bound zs (Vec3 0 0 lo) \<le> length zs
         \<and> (\<forall>i < length zs. vz (zs ! i) < lo \<longleftrightarrow> i < lower_bound zs (Vec3 0 0 lo))"
  unfolding lower_bound_def
  using bound_loop_spec[of zs "\<lambda>e. cmpz e (Vec3 0 0 lo)" 0 "length zs"]
    sorted_vz_nth[OF assms]
  by (fastforce simp: cmpz_def)

lemma upper_bound_spec:
  assumes "sorted (map vz zs)"
  shows "upper_bound zs (Vec3 0 0 hi) \<le> length zs
         \<and> (\<forall>i < length zs. vz (zs ! i) \<le> hi \<longleftrightarrow> i < upper_bound zs (Vec3 0 0 hi))"
  unfolding upper_bound_def
  using bound_loop_spec[of zs "\<lambda>e. \<not> cmpz (Vec3 0 0 hi) e" 0 "length zs"]
    sorted_vz_nth[OF assms]
  by (fastforce simp: cmpz_def not_less)

lemma bounds_ordered:
  assumes "sorted (map vz zs)" and "lo \<le> hi"
  shows "lower_bound zs (Vec3 0 0 lo) \<le> upper_bound zs (Vec3 0 0 hi)"
proof (rule ccontr)
  let ?p = "lower_bound zs (Vec3 0 0 lo)" and ?q = "upper_bound zs (Vec3 0 0 hi)"
  assume "\<not> ?p \<le> ?q"
  then have qp: "?q < ?p" by simp
  with lower_bound_spec[OF assms(1), of lo] have ql: "?q < length zs" by simp
  with lower_bound_spec[OF assms(1), of lo] qp have "vz (zs ! ?q) < lo" by blast
  with assms(2) have "vz (zs ! ?q) \<le> hi" by simp
  with upper_bound_spec[OF assms(1), of hi] ql have "?q < ?q" by blast
  then show False by simp
qed

lemma z_band:
  assumes "sorted (map vz zs)" and "lo \<le> hi"
  shows "take (upper_bound zs (Vec3 0 0 hi) - lower_bound zs (Vec3 0 0 lo))
              (drop (lower_bound zs (Vec3 0 0 lo)) zs)
         = filter (\<lambda>r. lo \<le> vz r \<and> vz r \<le> hi) zs"
proof (rule filter_interval[symmetric])
  fix i assume "i < length zs"
  then show "(lo \<le> vz (zs ! i) \<and> vz (zs ! i) \<le> hi)
             \<longleftrightarrow> (lower_bound zs (Vec3 0 0 lo) \<le> i \<and> i < upper_bound zs (Vec3 0 0 hi))"
    using lower_bound_spec[OF assms(1), of lo] upper_bound_spec[OF assms(1), of hi]
    by (auto simp: not_less[symmetric])
next
  show "lower_bound zs (Vec3 0 0 lo) \<le> upper_bound zs (Vec3 0 0 hi)"
    by (rule bounds_ordered[OF assms])
qed

lemma y_filter_band:
  assumes "sorted (map vz zs)" and "0 \<le> m"
  shows "y_filter zs (lower_bound zs (Vec3 0 0 (zpos - m))) (upper_bound zs (Vec3 0 0 (zpos + m)))
           ypos m
         = Some (brute_force_scan zs zpos ypos m)"
proof -
  from assms(2) have le: "zpos - m \<le> zpos + m" by simp
  have "\<not> upper_bound zs (Vec3 0 0 (zpos + m)) < lower_bound zs (Vec3 0 0 (zpos - m))"
    using bounds_ordered[OF assms(1) le] by simp
  then show ?thesis
    by (simp add: y_filter_def z_band[OF assms(1) le] brute_force_scan_def conj_commute conj_left_commute)
qed

text \<open>
  C5. For an index sorted ascending by \<open>z\<close> and a margin \<open>m\<close> that is not negative (the sum
  of the probe radius and the spacing), the two-stage query, binary search of the bounds on
  \<open>z\<close> and linear filter on \<open>y\<close>, returns the entries a linear scan of the whole index
  with the same bounds returns, in the same order; so the two multisets are equal as well.
\<close>

theorem band_query_brute_force:
  assumes "sorted (map vz zsorter)" and "0 \<le> m"
  shows "band_query zsorter targetZ targetY m = Some (brute_force_scan zsorter targetZ targetY m)"
  using y_filter_band[OF assms] by (simp add: band_query_def Let_def)

theorem band_query_brute_force_witness:
  "band_query [Vec3 0 0 0, Vec3 5 9 1, Vec3 1 1 2, Vec3 0 0 7] 1 0 3
   = Some [Vec3 0 0 0, Vec3 1 1 2]"
  using band_query_brute_force[of "[Vec3 0 0 0, Vec3 5 9 1, Vec3 1 1 2, Vec3 0 0 7]" 3 1 0]
  by (simp add: brute_force_scan_def)

text \<open>
  With a negative margin the two bounds can cross, and the loop from \<open>p\<close> to \<open>q\<close> leaves the
  vector: the hypothesis on the margin is needed.
\<close>

lemma band_query_negative_margin: "band_query [Vec3 0 0 0] 0 0 (- 1) = None"
proof -
  have "lower_bound [Vec3 0 0 0] (Vec3 0 0 1) = 1"
    unfolding lower_bound_def by (subst bound_loop.simps) (simp add: cmpz_def bound_loop.simps)
  moreover have "upper_bound [Vec3 0 0 0] (Vec3 0 0 (- 1)) = 0"
    unfolding upper_bound_def by (subst bound_loop.simps) (simp add: cmpz_def bound_loop.simps)
  ultimately show ?thesis by (simp add: band_query_def y_filter_def)
qed

subsection \<open>Properties of the excluded field\<close>








lemma excluded_outside:
  "0 \<le> acc \<Longrightarrow> excluded_upto_big acc band xyz = outside_value"
  by (simp add: excluded_upto_big_def outside_value_def power2_eq_square)

lemma excluded_claimed_agree:
  "list_ex (\<lambda>r. dist2 xyz r < big) band \<or> band = [] \<or> 0 \<le> acc \<Longrightarrow>
   excluded_upto_big acc band xyz = excluded_as_claimed acc band xyz"
  by (auto simp: excluded_upto_big_def excluded_as_claimed_def)

text \<open>
  The hypothesis on the length of the accessible field is needed: the fill reads it at
  every vertex of an invoked slab.
\<close>

lemma excluded_fill_short_field:
  "excluded_fill \<lparr>gmin = Vec3 0 0 0, gmax = Vec3 1 1 1, xdim = 0, ydim = 0, zdim = 0\<rparr> 1
     [] [] 1 [0, 0, 0]
   = Inl Undefined_behaviour"
  by code_simp

subsection \<open>Properties of the vertex colour\<close>

lemma blend_ge:
  assumes "rgb_nonneg a"
  shows "cx color \<le> cx (blend xyz color a) \<and> cy color \<le> cy (blend xyz color a)
       \<and> cz color \<le> cz (blend xyz color a)"
  using assms by (simp add: rgb_nonneg_def blend_def Let_def vadd4_def vscale4_def)

lemma accumulate_ge:
  assumes "list_all rgb_nonneg cas"
  shows "cx color \<le> cx (foldl (blend xyz) color cas) \<and> cy color \<le> cy (foldl (blend xyz) color cas)
       \<and> cz color \<le> cz (foldl (blend xyz) color cas)"
  using assms
proof (induction cas arbitrary: color)
  case Nil
  then show ?case by simp
next
  case (Cons a cas)
  then have a: "rgb_nonneg a" and rest: "list_all rgb_nonneg cas" by simp_all
  note blend_ge[OF a, of color xyz]
  moreover note Cons.IH[OF rest, of "blend xyz color a"]
  ultimately show ?case by auto
qed

lemma dot4_ge_3:
  assumes "1 \<le> cx v" "1 \<le> cy v" "1 \<le> cz v"
  shows "3 \<le> dot4 (set_w 0 v) (set_w 0 v)"
proof -
  have sq: "1 \<le> t * t" if "1 \<le> t" for t :: real
    using mult_mono[of 1 t 1 t] that by simp
  from assms have "1 \<le> cx v * cx v" "1 \<le> cy v * cy v" "1 \<le> cz v * cz v"
    by (simp_all add: sq)
  then show ?thesis by (simp add: dot4_def set_w_def)
qed

text \<open>
  C9. When no coloured atom has a negative red, green or blue channel, the accumulator of
  \<^verbatim>\<open>egen\<close>, which starts at white, keeps every channel at 1 or above; the vector handed to
  \<^verbatim>\<open>normalize\<close> has length at least \<open>sqrt 3\<close>, the normalisation is defined and a colour is
  returned: no fallback for a vector of length zero is ever needed.
\<close>

theorem egen_normalize_defined:
  assumes "list_all rgb_nonneg cas"
  shows "1 \<le> cx (foldl (blend xyz) white cas) \<and> 1 \<le> cy (foldl (blend xyz) white cas)
       \<and> 1 \<le> cz (foldl (blend xyz) white cas)
       \<and> sqrt 3 \<le> sqrt (dot4 (set_w 0 (foldl (blend xyz) white cas))
                              (set_w 0 (foldl (blend xyz) white cas)))
       \<and> egen_color xyz cas \<noteq> None"
proof -
  let ?acc = "foldl (blend xyz) white cas"
  from accumulate_ge[OF assms, of white xyz]
  have ge: "1 \<le> cx ?acc" "1 \<le> cy ?acc" "1 \<le> cz ?acc" by (simp_all add: white_def)
  then have d: "3 \<le> dot4 (set_w 0 ?acc) (set_w 0 ?acc)" by (rule dot4_ge_3)
  then have "dot4 (set_w 0 ?acc) (set_w 0 ?acc) \<noteq> 0" by simp
  then have "egen_color xyz cas \<noteq> None" by (simp add: egen_color_def normalize4_def)
  with ge d show ?thesis by simp
qed

theorem egen_normalize_defined_witness:
  "egen_color (Vec3 1 0 0)
     [\<lparr>ca_color = Vec4 1 0 0 1, ca_pos = Vec3 0 0 0, ca_radius = 1\<rparr>,
      \<lparr>ca_color = Vec4 0 0 1 1, ca_pos = Vec3 9 0 0, ca_radius = 1\<rparr>] \<noteq> None"
  using egen_normalize_defined[of
      "[\<lparr>ca_color = Vec4 1 0 0 1, ca_pos = Vec3 0 0 0, ca_radius = 1\<rparr>,
        \<lparr>ca_color = Vec4 0 0 1 1, ca_pos = Vec3 9 0 0, ca_radius = 1\<rparr>]" "Vec3 1 0 0"]
  by (simp add: rgb_nonneg_def)

lemma dist2_nonneg: "0 \<le> dist2 a b"
  by (simp add: dist2_def dot3_def)

lemma distance_less_iff: "distance xyz p < 2 * \<bar>r\<bar> \<longleftrightarrow> dist2 xyz p < r * r * 4"
proof -
  have "2 * \<bar>r\<bar> = sqrt (r * r * 4)"
    by (simp add: real_sqrt_mult flip: power2_eq_square)
  then show ?thesis by (simp add: distance_def)
qed

lemma egen_no_weight:
  "egen_color xyz [] = Some neutral_normalized"
  by (simp add: egen_color_def normalize4_def white_def set_w_def vscale4_def dot4_def
      neutral_normalized_def)

lemma egen_one_atom:
  "egen_color xyz [a] =
     (if distance xyz (ca_pos a) < 2 * \<bar>ca_radius a\<bar>
      then map_option (set_w 1)
             (normalize4 (set_w 0 (vadd4 white (vscale4 (ca_color a)
                (min ((ca_radius a)\<^sup>2 * 4 - (distance xyz (ca_pos a))\<^sup>2) 1)))))
      else Some neutral_normalized)"
proof (cases "distance xyz (ca_pos a) < 2 * \<bar>ca_radius a\<bar>")
  case True
  then have w: "0 < ca_radius a * ca_radius a * 4 - dist2 xyz (ca_pos a)"
    by (simp add: distance_less_iff)
  have d: "distance xyz (ca_pos a) * distance xyz (ca_pos a) = dist2 xyz (ca_pos a)"
    by (simp add: distance_def dist2_nonneg)
  from w have "max 0 (min (ca_radius a * ca_radius a * 4 - dist2 xyz (ca_pos a)) 1)
             = min (ca_radius a * ca_radius a * 4 - dist2 xyz (ca_pos a)) 1"
    by simp
  with True w show ?thesis
    by (simp add: egen_color_def blend_def Let_def d power2_eq_square)
next
  case False
  then have "\<not> 0 < ca_radius a * ca_radius a * 4 - dist2 xyz (ca_pos a)"
    by (simp add: distance_less_iff)
  then have "foldl (blend xyz) white [a] = white" by (simp add: blend_def Let_def)
  with False show ?thesis using egen_no_weight[of xyz] by (simp add: egen_color_def)
qed

lemma egen_one_atom_hue:
  assumes "rgb_nonneg a" and "distance xyz (ca_pos a) < 2 * \<bar>ca_radius a\<bar>"
  shows "\<exists>res k. egen_color xyz [a] = Some res \<and> cw res = 1 \<and> 0 < k
           \<and> cx res - cy res = k * (cx (ca_color a) - cy (ca_color a))
           \<and> cy res - cz res = k * (cy (ca_color a) - cz (ca_color a))
           \<and> cz res - cx res = k * (cz (ca_color a) - cx (ca_color a))"
proof -
  define w where "w = min ((ca_radius a)\<^sup>2 * 4 - (distance xyz (ca_pos a))\<^sup>2) 1"
  define v where "v = set_w 0 (vadd4 white (vscale4 (ca_color a) w))"
  define n where "n = sqrt (dot4 v v)"
  have d: "distance xyz (ca_pos a) * distance xyz (ca_pos a) = dist2 xyz (ca_pos a)"
    by (simp add: distance_def dist2_nonneg)
  from assms(2) have wpos: "0 < w"
    by (simp add: w_def d distance_less_iff power2_eq_square)
  have "1 \<le> cx v" "1 \<le> cy v" "1 \<le> cz v"
    using assms(1) wpos
    by (simp_all add: v_def set_w_def vadd4_def vscale4_def white_def rgb_nonneg_def)
  then have "3 \<le> dot4 (set_w 0 v) (set_w 0 v)" by (rule dot4_ge_3)
  moreover have "set_w 0 v = v" by (simp add: v_def set_w_def)
  ultimately have d3: "3 \<le> dot4 v v" by simp
  then have npos: "0 < n" by (simp add: n_def)
  from d3 have "egen_color xyz [a] = Some (set_w 1 (vscale4 v (1 / n)))"
    using assms(2) by (simp add: egen_one_atom normalize4_def v_def w_def n_def)
  moreover have "cw (set_w 1 (vscale4 v (1 / n))) = 1" by (simp add: set_w_def)
  moreover have "0 < w / n" using wpos npos by simp
  moreover have
    "cx (set_w 1 (vscale4 v (1 / n))) - cy (set_w 1 (vscale4 v (1 / n)))
       = w / n * (cx (ca_color a) - cy (ca_color a))"
    "cy (set_w 1 (vscale4 v (1 / n))) - cz (set_w 1 (vscale4 v (1 / n)))
       = w / n * (cy (ca_color a) - cz (ca_color a))"
    "cz (set_w 1 (vscale4 v (1 / n))) - cx (set_w 1 (vscale4 v (1 / n)))
       = w / n * (cz (ca_color a) - cx (ca_color a))"
    using npos
    by (simp_all add: v_def set_w_def vscale4_def vadd4_def white_def field_simps)
  ultimately show ?thesis by blast
qed

text \<open>
  C6 (as amended). For a single coloured atom of radius \<open>r\<close> and a vertex at distance \<open>d\<close>
  from it: when \<open>d < 2 r\<close> the weight \<open>4 r\<^sup>2 - d\<^sup>2\<close> is positive and the colour is white plus
  the atom's colour times the weight, the weight being at most 1, scaled to length 1 over
  red, green and blue, with alpha 1; when \<open>d \<ge> 2 r\<close> it is the neutral colour scaled to
  length 1, \<open>(1 / sqrt 3, 1 / sqrt 3, 1 / sqrt 3)\<close>, with alpha 1. In the first case, for an
  atom colour with no negative channel, the hue is kept: alpha is 1 and the differences
  between the channels of the result are those of the atom's colour, all scaled by one
  positive factor.
\<close>

theorem egen_single_atom:
  "egen_color xyz [a] =
     (if distance xyz (ca_pos a) < 2 * \<bar>ca_radius a\<bar>
      then map_option (set_w 1)
             (normalize4 (set_w 0 (vadd4 white (vscale4 (ca_color a)
                (min ((ca_radius a)\<^sup>2 * 4 - (distance xyz (ca_pos a))\<^sup>2) 1)))))
      else Some neutral_normalized)
   \<and> (if rgb_nonneg a \<and> distance xyz (ca_pos a) < 2 * \<bar>ca_radius a\<bar>
      then \<exists>res k. egen_color xyz [a] = Some res \<and> cw res = 1 \<and> 0 < k
             \<and> cx res - cy res = k * (cx (ca_color a) - cy (ca_color a))
             \<and> cy res - cz res = k * (cy (ca_color a) - cz (ca_color a))
             \<and> cz res - cx res = k * (cz (ca_color a) - cx (ca_color a))
      else True)"
  using egen_one_atom[of xyz a] egen_one_atom_hue[of a xyz] by (simp only: simp_thms split: if_splits) auto

theorem egen_single_atom_witness:
  "egen_color (Vec3 (1 / 2) 0 0) [\<lparr>ca_color = Vec4 1 0 0 1, ca_pos = Vec3 0 0 0, ca_radius = 1\<rparr>]
   = Some (Vec4 (2 / sqrt 6) (1 / sqrt 6) (1 / sqrt 6) 1)"
proof -
  have d: "distance (Vec3 (1 / 2) 0 0) (Vec3 0 0 0) = 1 / 2"
    by (simp add: distance_def dist2_def dot3_def vsub_def real_sqrt_divide flip: power2_eq_square)
  from egen_single_atom[of "Vec3 (1 / 2) 0 0"
      "\<lparr>ca_color = Vec4 1 0 0 1, ca_pos = Vec3 0 0 0, ca_radius = 1\<rparr>"]
  have "egen_color (Vec3 (1 / 2) 0 0)
          [\<lparr>ca_color = Vec4 1 0 0 1, ca_pos = Vec3 0 0 0, ca_radius = 1\<rparr>]
        = map_option (set_w 1)
            (normalize4 (set_w 0 (vadd4 white (vscale4 (Vec4 1 0 0 1)
               (min (1\<^sup>2 * 4 - (1 / 2)\<^sup>2) 1)))))"
    by (simp add: d)
  then show ?thesis
    by (simp add: normalize4_def white_def set_w_def vadd4_def vscale4_def dot4_def
        power2_eq_square)
qed

text \<open>
  The claim as stated puts the threshold at \<open>d = r\<close> and returns the neutral colour
  unchanged beyond it. For a red atom of radius 1 at the origin: at distance \<open>3/2\<close> the
  weight is \<open>4 - 9/4\<close> and the colour is reddish; at distance 3 the weight is negative and
  the colour is the grey of length 1, not white.
\<close>

theorem egen_threshold_is_twice_radius:
  "egen_color (Vec3 (3 / 2) 0 0) [\<lparr>ca_color = Vec4 1 0 0 1, ca_pos = Vec3 0 0 0, ca_radius = 1\<rparr>]
     = Some (Vec4 (2 / sqrt 6) (1 / sqrt 6) (1 / sqrt 6) 1)
   \<and> Vec4 (2 / sqrt 6) (1 / sqrt 6) (1 / sqrt 6) 1 \<noteq> white
   \<and> egen_color (Vec3 3 0 0) [\<lparr>ca_color = Vec4 1 0 0 1, ca_pos = Vec3 0 0 0, ca_radius = 1\<rparr>]
     = Some neutral_normalized
   \<and> neutral_normalized \<noteq> white"
  by (simp add: egen_color_def normalize4_def blend_def white_def set_w_def vadd4_def
      vscale4_def dot4_def dist2_def dot3_def vsub_def neutral_normalized_def)

subsection \<open>Properties of the run\<close>

lemma options_read_update [simp]:
  "options_read (opts\<lparr>output_path := d\<rparr>) = options_read opts"
  by (simp add: options_read_def)

lemma options_read_fields:
  assumes "options_read a = options_read b"
  shows "pdb_filename a = pdb_filename b" "grid_spacing_text a = grid_spacing_text b"
    "error a = error b" "list_chains a = list_chains b" "chains a = chains b"
  using assms by (simp_all add: options_read_def)

lemma parse_args_read:
  "options_read opts = options_read opts' \<Longrightarrow>
   options_read (parse_args args opts) = options_read (parse_args args opts')"
proof (induction args opts arbitrary: opts' rule: parse_args.induct)
  case (1 opts)
  then show ?case by simp
next
  case (2 arg rest opts)
  note f = options_read_fields[OF "2.prems"]
  show ?case
  proof (cases "arg = ''--grid-spacing'' \<and> rest \<noteq> []")
    case c1: True
    have eq: "options_read (opts\<lparr>grid_spacing_text := hd rest\<rparr>)
          = options_read (opts'\<lparr>grid_spacing_text := hd rest\<rparr>)"
      using f by (simp add: options_read_def)
    have step: "parse_args (arg # rest) o' = parse_args (tl rest) (o'\<lparr>grid_spacing_text := hd rest\<rparr>)" for o'
                using c1 by simp
              from "2.IH"(1)[OF c1 eq] show ?thesis by (simp only: step)
  next
    case c1: False
    show ?thesis
    proof (cases "arg = ''--chains'' \<and> rest \<noteq> []")
      case c2: True
      have eq: "options_read (opts\<lparr>chains := hd rest\<rparr>) = options_read (opts'\<lparr>chains := hd rest\<rparr>)"
        using f by (simp add: options_read_def)
      have step: "parse_args (arg # rest) o' = parse_args (tl rest) (o'\<lparr>chains := hd rest\<rparr>)" for o'
                using c1 c2 by simp
              from "2.IH"(2)[OF c1 c2 eq] show ?thesis by (simp only: step)
    next
      case c2: False
      show ?thesis
      proof (cases "arg = ''-o'' \<and> rest \<noteq> []")
        case c3: True
        have eq: "options_read (opts\<lparr>output_path := hd rest\<rparr>)
              = options_read (opts'\<lparr>output_path := hd rest\<rparr>)"
          using f by (simp add: options_read_def)
        have step: "parse_args (arg # rest) o' = parse_args (tl rest) (o'\<lparr>output_path := hd rest\<rparr>)" for o'
                using c1 c2 c3 by simp
              from "2.IH"(3)[OF c1 c2 c3 eq] show ?thesis by (simp only: step)
      next
        case c3: False
        show ?thesis
        proof (cases "arg = ''--help''")
          case c4: True
          have eq: "options_read (opts\<lparr>error := True\<rparr>) = options_read (opts'\<lparr>error := True\<rparr>)"
            using f by (simp add: options_read_def)
          have step: "parse_args (arg # rest) o' = parse_args rest (o'\<lparr>error := True\<rparr>)" for o'
                using c1 c2 c3 c4 by simp
              from "2.IH"(4)[OF c1 c2 c3 c4 eq] show ?thesis by (simp only: step)
        next
          case c4: False
          show ?thesis
          proof (cases "arg = ''--list-chains''")
            case c5: True
            have eq: "options_read (opts\<lparr>list_chains := True\<rparr>)
                  = options_read (opts'\<lparr>list_chains := True\<rparr>)"
              using f by (simp add: options_read_def)
            have step: "parse_args (arg # rest) o' = parse_args rest (o'\<lparr>list_chains := True\<rparr>)" for o'
                using c1 c2 c3 c4 c5 by simp
              from "2.IH"(5)[OF c1 c2 c3 c4 c5 eq] show ?thesis by (simp only: step)
          next
            case c5: False
            show ?thesis
            proof (cases "arg \<noteq> [] \<and> hd arg = CHR ''-''")
              case c6: True
              have eq: "options_read (opts\<lparr>error := True\<rparr>) = options_read (opts'\<lparr>error := True\<rparr>)"
                using f by (simp add: options_read_def)
              have step: "parse_args (arg # rest) o' = parse_args rest (o'\<lparr>error := True\<rparr>)" for o'
                using c1 c2 c3 c4 c5 c6 by auto
              from "2.IH"(6)[OF c1 c2 c3 c4 c5 c6 eq] show ?thesis by (simp only: step)
            next
              case c6: False
              have eq: "options_read (opts\<lparr>error := (error opts \<or> pdb_filename opts \<noteq> None),
                                        pdb_filename := Some arg\<rparr>)
                    = options_read (opts'\<lparr>error := (error opts' \<or> pdb_filename opts' \<noteq> None),
                                          pdb_filename := Some arg\<rparr>)"
                using f by (simp add: options_read_def)
              have step: "parse_args (arg # rest) o' = parse_args rest (o'\<lparr>error := (error o' \<or> pdb_filename o' \<noteq> None), pdb_filename := Some arg\<rparr>)" for o'
                using c1 c2 c3 c4 c5 c6 by auto
              from "2.IH"(7)[OF c1 c2 c3 c4 c5 c6 eq] show ?thesis by (simp only: step)
            qed
          qed
        qed
      qed
    qed
  qed
qed

lemma molecules_run_read:
  assumes "options_read opts = options_read opts'"
  shows "molecules_run atof pdb opts = molecules_run atof pdb opts'"
  unfolding molecules_run_def by (simp only: options_read_fields[OF assms])

lemma dash_o_ignored:
  "molecules_run atof pdb (parse_args (''-o'' # d # args) opts)
   = molecules_run atof pdb (parse_args args opts)"
proof -
  have step: "parse_args (''-o'' # d # args) opts = parse_args args (opts\<lparr>output_path := d\<rparr>)"
    by simp
  have "options_read (parse_args args (opts\<lparr>output_path := d\<rparr>))
        = options_read (parse_args args opts)"
    by (rule parse_args_read) (rule options_read_update)
  then have "molecules_run atof pdb (parse_args args (opts\<lparr>output_path := d\<rparr>))
             = molecules_run atof pdb (parse_args args opts)"
    by (rule molecules_run_read)
  then show ?thesis by (simp only: step)
qed

lemma molecules_run_Written:
  assumes "molecules_run atof pdb opts = Inr (Written name)"
  shows "\<exists>filename. pdb_filename opts = Some filename
           \<and> name = take 255 (stem_of filename @ ''_'' @ chains opts @ ''_''
                               @ grid_spacing_text opts @ ''.fbx'')"
  using assms
  by (auto simp: molecules_run_def out_filename_def fmt_def
      split: option.splits if_splits sum.splits)

lemma skip_dirs_no_sep:
  "CHR ''/'' \<notin> set base \<Longrightarrow> CHR 0x5C \<notin> set base \<Longrightarrow> skip_dirs base acc = acc"
  by (induction base arbitrary: acc) auto

lemma skip_dirs_suffix:
  assumes "c = CHR ''/'' \<or> c = CHR 0x5C" "CHR ''/'' \<notin> set base" "CHR 0x5C \<notin> set base"
  shows "skip_dirs (dir @ c # base) acc = base"
  using assms
proof (induction dir arbitrary: acc)
  case Nil
  then show ?case by (auto simp: skip_dirs_no_sep)
next
  case (Cons a dir)
  then show ?case by simp
qed

lemma find_dot_no_dot: "CHR ''.'' \<notin> set cs \<Longrightarrow> find_dot cs i last_dot = last_dot"
  by (induction cs arbitrary: i) auto

lemma find_dot_last:
  "CHR ''.'' \<notin> set ext \<Longrightarrow> find_dot (name @ CHR ''.'' # ext) i last_dot = i + length name"
  by (induction name arbitrary: i last_dot) (auto simp: find_dot_no_dot)

lemma stem_of_path:
  assumes "CHR ''/'' \<notin> set (name @ ext)" "CHR 0x5C \<notin> set (name @ ext)" "CHR ''.'' \<notin> set ext"
  shows "stem_of (dir @ ''/'' @ name @ ''.'' @ ext) = name"
proof -
  have "skip_dirs (dir @ CHR ''/'' # (name @ CHR ''.'' # ext)) acc = name @ CHR ''.'' # ext" for acc
    using assms by (intro skip_dirs_suffix) auto
  then show ?thesis
    using find_dot_last[OF assms(3), of name 0] by (simp add: stem_of_def)
qed

lemma stem_of_no_extension:
  assumes "CHR ''/'' \<notin> set name" "CHR 0x5C \<notin> set name" "CHR ''.'' \<notin> set name"
  shows "stem_of name = name"
  using assms by (simp add: stem_of_def skip_dirs_no_sep find_dot_no_dot)

lemma stem_of_name_ext:
  assumes "CHR ''/'' \<notin> set (name @ ext)" "CHR 0x5C \<notin> set (name @ ext)" "CHR ''.'' \<notin> set ext"
  shows "stem_of (name @ ''.'' @ ext) = name"
proof -
  have "skip_dirs (name @ CHR ''.'' # ext) acc = acc" for acc
    using assms by (intro skip_dirs_no_sep) auto
  then show ?thesis
    using find_dot_last[OF assms(3), of name 0] by (simp add: stem_of_def)
qed

lemma parse_file_arg:
  assumes "arg \<noteq> []" and "hd arg \<noteq> CHR ''-''"
  shows "parse_args (arg # rest) opts
         = parse_args rest (opts\<lparr>error := (error opts \<or> pdb_filename opts \<noteq> None),
                                  pdb_filename := Some arg\<rparr>)"
proof -
  have "arg \<noteq> ''--grid-spacing''" "arg \<noteq> ''--chains''" "arg \<noteq> ''-o''" "arg \<noteq> ''--help''"
    "arg \<noteq> ''--list-chains''"
    using assms(2) by fastforce+
  with assms show ?thesis by simp
qed

subsubsection \<open>The empty selection\<close>

lemma empty_selection_undefined:
  assumes "pdb_filename opts = Some filename" "\<not> error opts" "\<not> list_chains opts"
    and "add_chains pdb (chains opts) = Inr a" and "pos a = []"
  shows "molecules_run atof pdb opts = Inl Undefined_behaviour"
  using assms by (simp add: molecules_run_def grid_extents_def split: option.split)

text \<open>The spacings of the examples are floats, and the grid of the one atom of the examples.\<close>

lemma example_spacings: "to_float 1 = Some 1" "to_float (1 / 4) = Some (1 / 4)"
  using is_float_dyadic[of 1 0] is_float_dyadic[of 1 2] by (simp_all add: is_float_def)

lemma example_grid:
  "grid_extents [Vec3 0 0 0] [1] 1
   = Inr \<lparr>gmin = Vec3 (- 4) (- 4) (- 4), gmax = Vec3 4 4 4, xdim = 9, ydim = 9, zdim = 9\<rparr>"
  by (simp add: grid_extents_def extents_def float_vsubs_def float_vadds_def grid_dim_def
      float_exact max_radius_of_def to_int_def in_int_def water_radius_def vmin_def vmax_def)

lemma example_field:
  "field_size \<lparr>gmin = Vec3 (- 4) (- 4) (- 4), gmax = Vec3 4 4 4, xdim = 9, ydim = 9, zdim = 9\<rparr>
   = Inr 1000"
  by (simp add: field_size_def int_add_def int_mul_def in_int_def)

text \<open>
  C7. The claim: a selection of zero atoms is detected before the bounding box and reported
  as an error. The example has no such test: for a file whose only chain is \<open>A\<close> and the
  selector \<open>Q\<close>, the arguments are accepted, no atom is collected, and line 169 reads
  \<^verbatim>\<open>pos[0]\<close> of an empty vector, which is undefined behaviour and not the usage error.
\<close>

theorem empty_selection_not_reported:
  "molecules example_atof example_pdb [''1abc.pdb'', ''--chains'', ''Q'']
     = Inl Undefined_behaviour
   \<and> add_chains example_pdb ''Q'' = Inr no_atoms"
  by (simp add: molecules_def molecules_run_def default_options_def add_chains_def
      addChain_def example_pdb_def example_atof_def example_spacings no_atoms_def
      grid_extents_def)

subsubsection \<open>A negative spacing\<close>

text \<open>
  With the spacing \<open>-1\<close> the dimensions of the grid of the one atom are \<open>-7\<close>, the size of
  the first field is \<open>(-6)\<^sup>3\<close>, and the constructor of the vector throws.
\<close>

lemma negative_spacing_length_error:
  "molecules (\<lambda>s. - 1) example_pdb [''1abc.pdb'', ''--chains'', ''A'', ''--grid-spacing'', ''-1'']
   = Inl Length_error"
proof -
  have s: "to_float (- 1) = Some (- 1)" using is_float_numeral(5) by (simp add: is_float_def)
  have g: "grid_extents [Vec3 0 0 0] [1] (- 1)
           = Inr \<lparr>gmin = Vec3 (- 4) (- 4) (- 4), gmax = Vec3 4 4 4,
                  xdim = - 7, ydim = - 7, zdim = - 7\<rparr>"
    by (simp add: grid_extents_def extents_def float_vsubs_def float_vadds_def grid_dim_def
        float_exact max_radius_of_def to_int_def in_int_def water_radius_def vmin_def vmax_def)
  show ?thesis
    by (simp add: molecules_def molecules_run_def default_options_def add_chains_def
        addChain_def example_pdb_def no_atoms_def s g field_size_def int_add_def int_mul_def
        in_int_def)
qed

subsubsection \<open>The name of the output file\<close>

text \<open>
  C10 (as amended). Whenever a run writes its file, the name is the first 255 bytes of
  \<open>stem_chains_spacing.fbx\<close>, made of the stem of the input file name (directories and the
  last extension removed), the chain selector and the spacing as they were typed; and the
  same run with \<open>-o dir\<close> put before the remaining arguments writes a file of the same name:
  the option is read and never used.
\<close>

theorem output_name_ignores_dash_o:
  assumes "molecules_run atof pdb (parse_args args opts) = Inr (Written name)"
  shows "(\<exists>filename. pdb_filename (parse_args args opts) = Some filename
            \<and> name = take 255 (claimed_name filename (chains (parse_args args opts))
                                  (grid_spacing_text (parse_args args opts))))
       \<and> molecules_run atof pdb (parse_args (''-o'' # d # args) opts) = Inr (Written name)"
  using molecules_run_Written[OF assms] assms
  by (simp only: dash_o_ignored claimed_name_def)

theorem output_name_ignores_dash_o_witness:
  "molecules_run example_atof example_pdb
     (parse_args [''-o'', ''out'', ''dir/1abc.pdb'', ''--chains'', ''A'', ''--grid-spacing'', ''1'']
        default_options)
   = Inr (Written ''1abc_A_1.fbx'')"
proof -
  have s: "stem_of ''dir/1abc.pdb'' = ''1abc''"
    using stem_of_path[of "''1abc''" "''pdb''" "''dir''"] by simp
  have "molecules_run example_atof example_pdb
          (parse_args [''dir/1abc.pdb'', ''--chains'', ''A'', ''--grid-spacing'', ''1'']
             default_options)
        = Inr (Written ''1abc_A_1.fbx'')"
    by (simp add: molecules_run_def default_options_def add_chains_def addChain_def
        example_pdb_def example_atof_def example_spacings example_grid example_field
        no_atoms_def out_filename_def fmt_def s)
  from output_name_ignores_dash_o[OF this, of "''out''"] show ?thesis by simp
qed

text \<open>
  The claim as stated gives the whole name. For an input file whose stem has 250 bytes the
  whole name has 258 bytes, and the buffer of \<^verbatim>\<open>fmt\<close> keeps 255: the name written ends in
  \<open>_A_1.\<close> and has lost its extension.
\<close>

theorem output_name_truncated:
  "molecules example_atof example_pdb
     [replicate 250 CHR ''a'' @ ''.pdb'', ''--chains'', ''A'', ''--grid-spacing'', ''1'']
   = Inr (Written (replicate 250 CHR ''a'' @ ''_A_1.''))
   \<and> claimed_name (replicate 250 CHR ''a'' @ ''.pdb'') ''A'' ''1''
     = replicate 250 CHR ''a'' @ ''_A_1.fbx''"
proof -
  have s: "stem_of (replicate 250 CHR ''a'' @ ''.pdb'') = replicate 250 CHR ''a''"
    using stem_of_name_ext[of "replicate 250 CHR ''a''" "''pdb''"] by simp
  have p: "parse_args [replicate 250 CHR ''a'' @ ''.pdb'', ''--chains'', ''A'',
                        ''--grid-spacing'', ''1''] default_options
           = default_options\<lparr>error := False,
               pdb_filename := Some (replicate 250 CHR ''a'' @ ''.pdb''),
               chains := ''A'', grid_spacing_text := ''1''\<rparr>"
    by (subst parse_file_arg) (simp_all add: default_options_def)
  have "molecules example_atof example_pdb
          [replicate 250 CHR ''a'' @ ''.pdb'', ''--chains'', ''A'', ''--grid-spacing'', ''1'']
        = Inr (Written (replicate 250 CHR ''a'' @ ''_A_1.''))"
    unfolding molecules_def p
    by (simp add: molecules_run_def default_options_def add_chains_def addChain_def
        example_pdb_def example_atof_def example_spacings example_grid example_field
        no_atoms_def out_filename_def fmt_def s)
  then show ?thesis by (simp add: claimed_name_def s)
qed

end
